theory Spec2Isabelle
  imports Main
begin

section \<open>Errors and panics\<close>

text \<open>
  The sentinel errors of \<^verbatim>\<open>nixplay.go\<close> and of the \<^verbatim>\<open>fs\<close> package, errors handed back by
  the remote client, and the run-time panics of Go (slice bounds, index, nil dereference,
  \<^verbatim>\<open>regexp.MustCompile\<close>). An error made by \<^verbatim>\<open>fmt.Errorf(format, ...)\<close> is kept as its
  format string, its string operands in order and the error it wraps with \<^verbatim>\<open>%w\<close>, if any;
  the text is not rendered.
\<close>

datatype error =
    ErrorDirNotFound
  | ErrorObjectNotFound
  | errCantUpload
  | errCantRmdir
  | errCantMkdir
  | Errorf string "string list" "error option"
  | ClientError string
  | PanicSliceBounds
  | PanicIndex
  | PanicNilDereference
  | PanicMustCompile

section \<open>The Go library functions used by the router\<close>

subsection \<open>strings.Trim\<close>

text \<open>\<^verbatim>\<open>strings.Trim(s, cutset)\<close>: all leading and trailing bytes of \<open>s\<close> that occur in \<open>cutset\<close> removed.\<close>

definition Trim :: "string \<Rightarrow> string \<Rightarrow> string" where
  "Trim s cutset =
     rev (dropWhile (\<lambda>c. c \<in> set cutset) (rev (dropWhile (\<lambda>c. c \<in> set cutset) s)))"

subsection \<open>Slicing\<close>

text \<open>\<^verbatim>\<open>s[n:]\<close> panics when \<open>n\<close> is beyond the length of \<open>s\<close>.\<close>

definition slice_from :: "string \<Rightarrow> nat \<Rightarrow> error + string" where
  "slice_from s n = (if n \<le> length s then Inr (drop n s) else Inl PanicSliceBounds)"

text \<open>\<^verbatim>\<open>xs[i]\<close> panics when \<open>i\<close> is not an index of \<open>xs\<close>.\<close>

definition index :: "'a list \<Rightarrow> nat \<Rightarrow> error + 'a" where
  "index xs i = (if i < length xs then Inr (xs ! i) else Inl PanicIndex)"

subsection \<open>path.Clean and path.Join\<close>

text \<open>
  \<^verbatim>\<open>path.Clean\<close> reads the path byte by byte and writes into a buffer \<open>out\<close>; \<open>dotdot\<close> is
  the length of the part of the buffer that a \<^verbatim>\<open>..\<close> element must not remove. The inner
  loop of the \<^verbatim>\<open>..\<close> case moves the write index \<open>w\<close> back to the previous slash.
\<close>

fun backtrack :: "nat \<Rightarrow> string \<Rightarrow> nat \<Rightarrow> nat" where
  "backtrack dotdot out w =
     (if w > dotdot \<and> out ! w \<noteq> CHR ''/'' then backtrack dotdot out (w - 1) else w)"

declare backtrack.simps [simp del]

function clean_loop :: "bool \<Rightarrow> string \<Rightarrow> string \<Rightarrow> nat \<Rightarrow> string" where
  "clean_loop rooted [] out dotdot = out"
| "clean_loop rooted (c # cs) out dotdot =
     (if c = CHR ''/'' then
        \<comment> \<open>empty path element\<close>
        clean_loop rooted cs out dotdot
      else if c = CHR ''.'' \<and> (cs = [] \<or> hd cs = CHR ''/'') then
        \<comment> \<open>\<^verbatim>\<open>.\<close> element\<close>
        clean_loop rooted cs out dotdot
      else if c = CHR ''.'' \<and> hd cs = CHR ''.'' \<and> (tl cs = [] \<or> hd (tl cs) = CHR ''/'') then
        \<comment> \<open>\<^verbatim>\<open>..\<close> element: remove to last slash\<close>
        (if length out > dotdot then
           clean_loop rooted (tl cs) (take (backtrack dotdot out (length out - 1)) out) dotdot
         else if \<not> rooted then
           (let out' = (if length out > 0 then out @ ''/'' else out) @ ''..''
            in clean_loop rooted (tl cs) out' (length out'))
         else clean_loop rooted (tl cs) out dotdot)
      else
        \<comment> \<open>real path element: add slash if needed, copy element\<close>
        (let out' = (if (rooted \<and> length out \<noteq> 1) \<or> (\<not> rooted \<and> length out \<noteq> 0)
                     then out @ ''/'' else out)
         in clean_loop rooted (dropWhile (\<lambda>x. x \<noteq> CHR ''/'') (c # cs))
              (out' @ takeWhile (\<lambda>x. x \<noteq> CHR ''/'') (c # cs)) dotdot))"
  by pat_completeness auto
termination
  by (relation "measure (\<lambda>(rooted, p, out, dotdot). length p)")
     (auto simp: less_Suc_eq_le length_dropWhile_le)

definition Clean :: "string \<Rightarrow> string" where
  "Clean path =
     (if path = [] then ''.''
      else
        (let rooted = (hd path = CHR ''/'');
             out = (if rooted then clean_loop rooted (tl path) ''/'' 1
                    else clean_loop rooted path [] 0)
         in if length out = 0 then ''.'' else out))"

text \<open>
  \<^verbatim>\<open>path.Join(elem...)\<close>: the empty string when every element is empty; otherwise the
  non-empty elements separated by slashes (an empty element after a non-empty one still
  adds its slash), cleaned.
\<close>

definition Join :: "string list \<Rightarrow> string" where
  "Join elem =
     (if sum_list (map length elem) = 0 then []
      else Clean (fold (\<lambda>e buf. if length buf > 0 \<or> e \<noteq> []
                                 then (if length buf > 0 then buf @ ''/'' else buf) @ e
                                 else buf) elem []))"

section \<open>Regular expressions of the pattern table\<close>

text \<open>
  The fragment of the \<^verbatim>\<open>regexp\<close> syntax that the pattern table uses: a pattern anchored
  by \<^verbatim>\<open>^\<close> and \<^verbatim>\<open>$\<close>, made of literal bytes and of capture groups \<^verbatim>\<open>(c+)\<close> (greedy) or
  \<^verbatim>\<open>(c+?)\<close> (lazy) over a character class \<open>c\<close>, which is \<^verbatim>\<open>.\<close> (any byte but newline, as
  no flag is set) or \<^verbatim>\<open>[^x]\<close> (any byte but \<open>x\<close>, newline included).
\<close>

datatype cclass = AnyCharNotNL | NotChar char

fun in_class :: "cclass \<Rightarrow> char \<Rightarrow> bool" where
  "in_class AnyCharNotNL c = (c \<noteq> CHR 0x0A)"
| "in_class (NotChar x) c = (c \<noteq> x)"

datatype node = Literal char | Capture cclass bool

type_synonym Regexp = "node list"

definition meta :: string where
  "meta = [CHR 0x5C, CHR ''.'', CHR ''+'', CHR ''*'', CHR ''?'', CHR ''('', CHR '')'', CHR ''|'',
           CHR ''['', CHR '']'', CHR ''{'', CHR ''}'', CHR ''^'', CHR ''$'']"

function parse :: "string \<Rightarrow> Regexp option" where
  "parse s =
     (if s = [] then Some []
      else if take 5 s = ''(.+?)'' then
        map_option ((#) (Capture AnyCharNotNL False)) (parse (drop 5 s))
      else if take 4 s = ''(.+)'' then
        map_option ((#) (Capture AnyCharNotNL True)) (parse (drop 4 s))
      else if take 3 s = ''([^'' \<and> take 3 (drop 4 s) = '']+)'' \<and> s ! 3 \<notin> set meta then
        map_option ((#) (Capture (NotChar (s ! 3)) True)) (parse (drop 7 s))
      else if hd s \<in> set meta then None
      else map_option ((#) (Literal (hd s))) (parse (tl s)))"
  by pat_completeness auto
termination
  by (relation "measure length") auto

declare parse.simps [simp del]

text \<open>
  \<^verbatim>\<open>regexp.MustCompile\<close> on that fragment; \<open>None\<close> stands for its panic (and for a pattern
  outside the fragment).
\<close>

definition MustCompile :: "string \<Rightarrow> Regexp option" where
  "MustCompile str =
     (if 2 \<le> length str \<and> hd str = CHR ''^'' \<and> last str = CHR ''$''
      then parse (butlast (tl str)) else None)"

text \<open>
  Matching is leftmost-first, as a backtracking matcher finds it: a greedy group tries its
  longest candidate first, a lazy one its shortest; the end of the node list is the \<^verbatim>\<open>$\<close>
  anchor. The result is the list of the groups' captures.
\<close>

fun first_match :: "(nat \<Rightarrow> 'a option) \<Rightarrow> nat list \<Rightarrow> 'a option" where
  "first_match f [] = None"
| "first_match f (k # ks) = (case f k of Some x \<Rightarrow> Some x | None \<Rightarrow> first_match f ks)"

fun run :: "Regexp \<Rightarrow> string \<Rightarrow> string list option" where
  "run [] s = (if s = [] then Some [] else None)"
| "run (Literal c # r) s =
     (case s of [] \<Rightarrow> None | x # xs \<Rightarrow> if x = c then run r xs else None)"
| "run (Capture cl greedy # r) s =
     (let n = length (takeWhile (in_class cl) s);
          lens = (if greedy then rev [1..<Suc n] else [1..<Suc n])
      in first_match (\<lambda>k. map_option ((#) (take k s)) (run r (drop k s))) lens)"

text \<open>
  \<^verbatim>\<open>FindStringSubmatch\<close>: \<open>None\<close> (nil) without a match, otherwise the text of the whole
  match, which for an anchored pattern is the whole string, followed by the captures.
\<close>

definition FindStringSubmatch :: "Regexp \<Rightarrow> string \<Rightarrow> string list option" where
  "FindStringSubmatch rx s = map_option ((#) s) (run rx s)"

section \<open>Directory entries and the lister interface\<close>

type_synonym Time = int

datatype ContainerType = AlbumContainerType | PlaylistContainerType

text \<open>\<^verbatim>\<open>fs.NewDir(remote, modTime)\<close> makes a directory entry with no ID and an unknown item count.\<close>

record Dir =
  Remote :: string
  ModTime :: Time
  ID :: string
  Items :: int

definition NewDir :: "string \<Rightarrow> Time \<Rightarrow> Dir" where
  "NewDir r t = \<lparr>Remote = r, ModTime = t, ID = [], Items = - 1\<rparr>"

text \<open>
  The container and photo handles of the remote client are interface values of the
  collaborator; a \<open>Photo\<close> is the storage object made of them. A reader is taken as the
  bytes it delivers.
\<close>

typedecl Container
typedecl PhotoHandle

type_synonym Reader = string

record Photo =
  parent :: Container
  photo :: PhotoHandle

datatype DirEntry = Directory Dir | Object Photo

type_synonym DirEntries = "DirEntry list"

text \<open>The subset of the interfaces on \<^verbatim>\<open>Fs\<close> needed for the file pattern parsing.\<close>

record lister =
  listContainers :: "string \<Rightarrow> ContainerType \<Rightarrow> error + DirEntries"
  listPhotos :: "string \<Rightarrow> ContainerType \<Rightarrow> string \<Rightarrow> error + DirEntries"
  dirTime :: Time

section \<open>The pattern table\<close>

text \<open>
  A single directory pattern. \<open>match\<close> is the compiled pattern, nil (\<open>None\<close>) until
  \<open>mustCompile\<close> has run; \<open>toEntries\<close> is nil on the rules that list nothing.
\<close>

record dirPattern =
  re :: string
  match :: "Regexp option"
  canUpload :: bool
  canMkdir :: bool
  isFile :: bool
  toEntries :: "(lister \<Rightarrow> string \<Rightarrow> string list \<Rightarrow> error + DirEntries) option"

type_synonym dirPatterns = "dirPattern list"

text \<open>The zero value of the struct: the fields a composite literal leaves out.\<close>

definition zero_dirPattern :: "dirPattern" where
  "zero_dirPattern =
     \<lparr>re = [], match = None, canUpload = False, canMkdir = False, isFile = False,
      toEntries = None\<rparr>"

definition root_toEntries :: "lister \<Rightarrow> string \<Rightarrow> string list \<Rightarrow> error + DirEntries" where
  "root_toEntries f prefix m =
     Inr [Directory (NewDir (prefix @ ''album'') (dirTime f)),
          Directory (NewDir (prefix @ ''playlist'') (dirTime f))]"

definition containers_toEntries ::
  "ContainerType \<Rightarrow> lister \<Rightarrow> string \<Rightarrow> string list \<Rightarrow> error + DirEntries" where
  "containers_toEntries t f prefix m = listContainers f prefix t"

definition photos_toEntries ::
  "ContainerType \<Rightarrow> lister \<Rightarrow> string \<Rightarrow> string list \<Rightarrow> error + DirEntries" where
  "photos_toEntries t f prefix m =
     (case index m 1 of Inl e \<Rightarrow> Inl e | Inr dir \<Rightarrow> listPhotos f prefix t dir)"

text \<open>The table as declared, before compilation, in declaration order.\<close>

definition patterns_literal :: "dirPatterns" where
  "patterns_literal =
     [zero_dirPattern\<lparr>re := ''^$'', toEntries := Some root_toEntries\<rparr>,
      zero_dirPattern\<lparr>re := ''^album$'',
        toEntries := Some (containers_toEntries AlbumContainerType)\<rparr>,
      zero_dirPattern\<lparr>re := ''^album/(.+)$'', canMkdir := True,
        toEntries := Some (photos_toEntries AlbumContainerType)\<rparr>,
      zero_dirPattern\<lparr>re := ''^album/(.+?)/([^/]+)$'', canUpload := True, isFile := True\<rparr>,
      zero_dirPattern\<lparr>re := ''^playlist$'',
        toEntries := Some (containers_toEntries PlaylistContainerType)\<rparr>,
      zero_dirPattern\<lparr>re := ''^playlist/(.+)$'', canMkdir := True,
        toEntries := Some (photos_toEntries PlaylistContainerType)\<rparr>,
      zero_dirPattern\<lparr>re := ''^playlist/(.+?)/([^/]+)$'', canUpload := True, isFile := True\<rparr>]"

text \<open>\<open>mustCompile\<close> compiles the regexps in the table; a pattern that does not compile panics.\<close>

fun mustCompile :: "dirPatterns \<Rightarrow> error + dirPatterns" where
  "mustCompile [] = Inr []"
| "mustCompile (pattern # ds) =
     (case MustCompile (re pattern) of
        None \<Rightarrow> Inl PanicMustCompile
      | Some rx \<Rightarrow>
          (case mustCompile ds of
             Inl e \<Rightarrow> Inl e
           | Inr ds' \<Rightarrow> Inr (pattern\<lparr>match := Some rx\<rparr> # ds')))"

definition patterns :: "dirPatterns" where
  "patterns = (case mustCompile patterns_literal of Inr ds \<Rightarrow> ds | Inl e \<Rightarrow> [])"

section \<open>The router\<close>

text \<open>
  The loop of \<open>match\<close> over the table: a rule of the other style is skipped, the first rule
  of the requested style whose pattern matches is returned with its captures; at the end
  of the table the result is \<^verbatim>\<open>nil, "", nil\<close>.
\<close>

fun match_loop ::
  "dirPatterns \<Rightarrow> bool \<Rightarrow> string \<Rightarrow> string \<Rightarrow>
     error + (string list \<times> string \<times> dirPattern option)" where
  "match_loop [] wantFile absPath prefix = Inr ([], [], None)"
| "match_loop (pattern # ds) wantFile absPath prefix =
     (if isFile pattern \<noteq> wantFile then match_loop ds wantFile absPath prefix
      else
        (case match pattern of
           None \<Rightarrow> Inl PanicNilDereference
         | Some rx \<Rightarrow>
             (case FindStringSubmatch rx absPath of
                Some m \<Rightarrow> Inr (m, prefix, Some pattern)
              | None \<Rightarrow> match_loop ds wantFile absPath prefix)))"

text \<open>
  \<open>match\<close> finds the path passed in the matching structure and returns the parameters and
  the matching rule, or nil. The slice \<^verbatim>\<open>absPath[len(root):]\<close> panics when the joined,
  cleaned path is shorter than the root.
\<close>

definition dirPatterns_match ::
  "dirPatterns \<Rightarrow> string \<Rightarrow> string \<Rightarrow> bool \<Rightarrow>
     error + (string list \<times> string \<times> dirPattern option)" where
  "dirPatterns_match ds root itemPath wantFile =
     (let itemPath = Trim itemPath ''/'';
          absPath = Join [root, itemPath]
      in case slice_from absPath (length root) of
           Inl e \<Rightarrow> Inl e
         | Inr rest \<Rightarrow>
             (let prefix = Trim rest ''/'';
                  prefix = (if prefix \<noteq> [] then prefix @ ''/'' else prefix)
              in match_loop ds wantFile absPath prefix))"

section \<open>The filesystem operations\<close>

text \<open>
  The remote client is a collaborator: its answers are taken as given functions of the
  arguments. \<open>ContainerID\<close> stands for \<^verbatim>\<open>idString(c.ID())\<close>.
\<close>

record AddPhotoOptions =
  FileSize :: int
  MIMEType :: string

record Client =
  Containers :: "ContainerType \<Rightarrow> error + Container list"
  ContainerWithUniqueName :: "ContainerType \<Rightarrow> string \<Rightarrow> error + Container option"
  CreateContainer :: "ContainerType \<Rightarrow> string \<Rightarrow> error + Container"
  Name :: "Container \<Rightarrow> error + string"
  ContainerID :: "Container \<Rightarrow> string"
  PhotoCount :: "Container \<Rightarrow> error + int"
  Photos :: "Container \<Rightarrow> error + PhotoHandle list"
  PhotoWithUniqueName :: "Container \<Rightarrow> string \<Rightarrow> error + PhotoHandle option"
  AddPhoto :: "Container \<Rightarrow> string \<Rightarrow> Reader \<Rightarrow> AddPhotoOptions \<Rightarrow> error + PhotoHandle"
  Delete :: "Container \<Rightarrow> error + unit"

record Fs =
  root :: string
  startTime :: Time
  nixplayClient :: "Client"

record ObjectInfo =
  src_Remote :: string
  src_Size :: int
  src_MimeType :: "string option"

fun listContainers_loop ::
  "Fs \<Rightarrow> string \<Rightarrow> Container list \<Rightarrow> DirEntries \<Rightarrow>
     error + DirEntries" where
  "listContainers_loop f prefix [] entries = Inr entries"
| "listContainers_loop f prefix (c # cs) entries =
     (case Name (nixplayClient f) c of
        Inl err \<Rightarrow> Inl err
      | Inr name \<Rightarrow>
          (let d = NewDir (prefix @ name) (startTime f);
               d = d\<lparr>ID := ContainerID (nixplayClient f) c\<rparr>
           in case PhotoCount (nixplayClient f) c of
                Inl err \<Rightarrow> Inl err
              | Inr itemCount \<Rightarrow>
                  listContainers_loop f prefix cs
                    (entries @ [Directory (d\<lparr>Items := itemCount\<rparr>)])))"

definition Fs_listContainers ::
  "Fs \<Rightarrow> string \<Rightarrow> ContainerType \<Rightarrow> error + DirEntries" where
  "Fs_listContainers f prefix containerType =
     (case Containers (nixplayClient f) containerType of
        Inl err \<Rightarrow> Inl err
      | Inr containers \<Rightarrow> listContainers_loop f prefix containers [])"

definition Fs_listPhotos ::
  "Fs \<Rightarrow> string \<Rightarrow> ContainerType \<Rightarrow> string \<Rightarrow>
     error + DirEntries" where
  "Fs_listPhotos f prefix containerType dir =
     (case ContainerWithUniqueName (nixplayClient f) containerType dir of
        Inl err \<Rightarrow> Inl (Errorf ''failed to get container %q: %w'' [dir] (Some err))
      | Inr None \<Rightarrow> Inl (Errorf ''container %q does not exist'' [dir] None)
      | Inr (Some c) \<Rightarrow>
          (case Photos (nixplayClient f) c of
             Inl err \<Rightarrow> Inl (Errorf ''failed to get photos: %w'' [] (Some err))
           | Inr photos \<Rightarrow> Inr (map (\<lambda>p. Object \<lparr>parent = c, photo = p\<rparr>) photos)))"

text \<open>\<^verbatim>\<open>Fs\<close> in the role of the lister; \<open>dirTime\<close> is the time the Fs was started.\<close>

definition Fs_lister :: "Fs \<Rightarrow> lister" where
  "Fs_lister f =
     \<lparr>listContainers = Fs_listContainers f, listPhotos = Fs_listPhotos f,
      dirTime = startTime f\<rparr>"

text \<open>List the objects and directories in \<open>dir\<close> into entries.\<close>

definition List :: "Fs \<Rightarrow> string \<Rightarrow> error + DirEntries" where
  "List f dir =
     (case dirPatterns_match patterns (root f) dir False of
        Inl e \<Rightarrow> Inl e
      | Inr (m, prefix, pattern) \<Rightarrow>
          (case pattern of
             None \<Rightarrow> Inl ErrorDirNotFound
           | Some pat \<Rightarrow>
               if isFile pat then Inl ErrorDirNotFound
               else (case toEntries pat of
                       Some g \<Rightarrow> g (Fs_lister f) prefix m
                     | None \<Rightarrow> Inl ErrorDirNotFound)))"

text \<open>
  The operations below read \<^verbatim>\<open>pattern.containerType\<close>, a field that the declaration of
  \<^verbatim>\<open>dirPattern\<close> does not have; it is taken as the parameter \<open>containerType\<close>.
\<close>

text \<open>\<open>NewObject\<close> finds the Object at \<open>remote\<close>.\<close>

definition NewObject ::
  "(dirPattern \<Rightarrow> ContainerType) \<Rightarrow> Fs \<Rightarrow> string \<Rightarrow>
     error + Photo" where
  "NewObject containerType f rem =
     (case dirPatterns_match patterns (root f) rem True of
        Inl e \<Rightarrow> Inl e
      | Inr (m, _, pattern) \<Rightarrow>
          (case pattern of
             None \<Rightarrow> Inl ErrorObjectNotFound
           | Some pat \<Rightarrow>
               (case index m 1 of Inl e \<Rightarrow> Inl e | Inr containerName \<Rightarrow>
                (case index m 2 of Inl e \<Rightarrow> Inl e | Inr photoName \<Rightarrow>
                 (case ContainerWithUniqueName (nixplayClient f) (containerType pat)
                         containerName of
                    Inl err \<Rightarrow> Inl (Errorf ''failed to get container: %w'' [] (Some err))
                  | Inr None \<Rightarrow> Inl ErrorObjectNotFound
                  | Inr (Some c) \<Rightarrow>
                      (case PhotoWithUniqueName (nixplayClient f) c photoName of
                         Inl err \<Rightarrow> Inl (Errorf ''failed to get photos: %w'' [] (Some err))
                       | Inr None \<Rightarrow> Inl ErrorObjectNotFound
                       | Inr (Some ph) \<Rightarrow> Inr \<lparr>parent = c, photo = ph\<rparr>))))))"

text \<open>
  \<open>Put\<close> the object: the reader \<open>inp\<close> is copied into a new photo. The container that the
  client returns is used without a nil check.
\<close>

definition Put ::
  "(dirPattern \<Rightarrow> ContainerType) \<Rightarrow> Fs \<Rightarrow> Reader \<Rightarrow> ObjectInfo \<Rightarrow>
     error + Photo" where
  "Put containerType f inp src =
     (case dirPatterns_match patterns (root f) (src_Remote src) True of
        Inl e \<Rightarrow> Inl e
      | Inr (m, _, pattern) \<Rightarrow>
          (case pattern of
             None \<Rightarrow> Inl errCantUpload
           | Some pat \<Rightarrow>
               if \<not> isFile pat \<or> \<not> canUpload pat then Inl errCantUpload
               else
               (case index m 1 of Inl e \<Rightarrow> Inl e | Inr containerName \<Rightarrow>
                (case index m 2 of Inl e \<Rightarrow> Inl e | Inr fileName \<Rightarrow>
                 (case ContainerWithUniqueName (nixplayClient f) (containerType pat)
                         containerName of
                    Inl err \<Rightarrow>
                      Inl (Errorf ''failed to get container to upload photo into: %w'' []
                             (Some err))
                  | Inr None \<Rightarrow> Inl PanicNilDereference
                  | Inr (Some c) \<Rightarrow>
                      (let opts = \<lparr>FileSize = src_Size src, MIMEType = []\<rparr>;
                           opts = (case src_MimeType src of
                                     Some mt \<Rightarrow> opts\<lparr>MIMEType := mt\<rparr>
                                   | None \<Rightarrow> opts)
                       in case AddPhoto (nixplayClient f) c fileName inp opts of
                            Inl err \<Rightarrow> Inl (Errorf ''failed to add photo: %w'' [] (Some err))
                          | Inr ph \<Rightarrow> Inr \<lparr>parent = c, photo = ph\<rparr>))))))"

text \<open>\<open>Mkdir\<close> creates the album if it doesn't exist.\<close>

definition Mkdir ::
  "(dirPattern \<Rightarrow> ContainerType) \<Rightarrow> Fs \<Rightarrow> string \<Rightarrow> error + unit" where
  "Mkdir containerType f dir =
     (case dirPatterns_match patterns (root f) dir False of
        Inl e \<Rightarrow> Inl e
      | Inr (m, _, pattern) \<Rightarrow>
          (case pattern of
             None \<Rightarrow> Inl ErrorDirNotFound
           | Some pat \<Rightarrow>
               if \<not> canMkdir pat then Inl errCantMkdir
               else
               (case index m 1 of Inl e \<Rightarrow> Inl e | Inr containerName \<Rightarrow>
                (case CreateContainer (nixplayClient f) (containerType pat) containerName of
                   Inl err \<Rightarrow> Inl err
                 | Inr _ \<Rightarrow> Inr ()))))"

text \<open>\<open>Rmdir\<close> deletes the container.\<close>

definition Rmdir ::
  "(dirPattern \<Rightarrow> ContainerType) \<Rightarrow> Fs \<Rightarrow> string \<Rightarrow> error + unit" where
  "Rmdir containerType f dir =
     (case dirPatterns_match patterns (root f) dir False of
        Inl e \<Rightarrow> Inl e
      | Inr (m, _, pattern) \<Rightarrow>
          (case pattern of
             None \<Rightarrow> Inl ErrorDirNotFound
           | Some pat \<Rightarrow>
               if \<not> canMkdir pat then Inl errCantRmdir
               else
               (case index m 1 of Inl e \<Rightarrow> Inl e | Inr containerName \<Rightarrow>
                (case ContainerWithUniqueName (nixplayClient f) (containerType pat)
                        containerName of
                   Inl err \<Rightarrow> Inl err
                 | Inr None \<Rightarrow> Inl ErrorDirNotFound
                 | Inr (Some c) \<Rightarrow> Delete (nixplayClient f) c))))"

section \<open>Notions used by the statements\<close>

text \<open>A rule matches a path when its compiled pattern finds a match.\<close>

definition matches :: "dirPattern \<Rightarrow> string \<Rightarrow> bool" where
  "matches pattern absPath =
     (case match pattern of
        None \<Rightarrow> False
      | Some rx \<Rightarrow> FindStringSubmatch rx absPath \<noteq> None)"

text \<open>A run of literal bytes of a pattern.\<close>

definition literals :: "string \<Rightarrow> Regexp" where
  "literals l = map Literal l"

text \<open>The part \<^verbatim>\<open>(.+?)/([^/]+)$\<close> that the two item patterns share.\<close>

definition item_tail :: Regexp where
  "item_tail = [Capture AnyCharNotNL False, Literal CHR ''/'', Capture (NotChar CHR ''/'') True]"

text \<open>Path segments written with single slashes between them.\<close>

fun slash_join :: "string list \<Rightarrow> string" where
  "slash_join [] = []"
| "slash_join [x] = x"
| "slash_join (x # y # xs) = x @ CHR ''/'' # slash_join (y # xs)"

text \<open>The prefix that \<open>match\<close> computes from a root and the joined path.\<close>

definition prefix_of :: "string \<Rightarrow> string \<Rightarrow> string" where
  "prefix_of rt absPath =
     (let t = Trim (drop (length rt) absPath) ''/'' in if t = [] then [] else t @ ''/'')"

text \<open>A client that is offline, and a filesystem over it.\<close>

definition offline :: "Client" where
  "offline =
     \<lparr>Containers = (\<lambda>t. Inl (ClientError ''offline'')),
      ContainerWithUniqueName = (\<lambda>t n. Inl (ClientError ''offline'')),
      CreateContainer = (\<lambda>t n. Inl (ClientError ''offline'')),
      Name = (\<lambda>c. Inl (ClientError ''offline'')),
      ContainerID = (\<lambda>c. []),
      PhotoCount = (\<lambda>c. Inl (ClientError ''offline'')),
      Photos = (\<lambda>c. Inl (ClientError ''offline'')),
      PhotoWithUniqueName = (\<lambda>c n. Inl (ClientError ''offline'')),
      AddPhoto = (\<lambda>c n r opts. Inl (ClientError ''offline'')),
      Delete = (\<lambda>c. Inl (ClientError ''offline''))\<rparr>"

definition offline_Fs :: "string \<Rightarrow> Fs" where
  "offline_Fs rt = \<lparr>root = rt, startTime = 0, nixplayClient = offline\<rparr>"

section \<open>Properties of the library functions and of the table\<close>


lemma first_match_Some: "first_match f ks = Some x \<Longrightarrow> \<exists>k\<in>set ks. f k = Some x"
  by (induction ks) (auto split: option.splits)

lemma first_match_unique:
  "\<forall>k\<in>set ks. k \<noteq> k0 \<longrightarrow> f k = None \<Longrightarrow>
   first_match f ks = (if k0 \<in> set ks then f k0 else None)"
  by (induction ks) (auto split: option.splits)


lemma run_literals:
  "run (literals l @ r) s =
     (if take (length l) s = l then run r (drop (length l) s) else None)"
proof (induction l arbitrary: s)
  case Nil
  then show ?case by (simp add: literals_def)
next
  case (Cons a l)
  then show ?case by (cases s) (auto simp: literals_def)
qed

lemma set_lens: "set (if g then rev [1..<Suc n] else [1..<Suc n]) = {k. 1 \<le> k \<and> k \<le> n}"
  by auto

lemma run_capture_end:
  "run [Capture cl g] s = (if s \<noteq> [] \<and> (\<forall>c\<in>set s. in_class cl c) then Some [s] else None)"
proof -
  define n where "n = length (takeWhile (in_class cl) s)"
  define lens where "lens = (if g then rev [1..<Suc n] else [1..<Suc n])"
  define f where "f = (\<lambda>k. map_option ((#) (take k s)) (run [] (drop k s)))"
  have n_le: "n \<le> length s" unfolding n_def by (rule length_takeWhile_le)
  have set_l: "set lens = {k. 1 \<le> k \<and> k \<le> n}" unfolding lens_def by (rule set_lens)
  have run_eq: "run [Capture cl g] s = first_match f lens"
    by (simp add: n_def lens_def f_def Let_def)
  have uniq: "\<forall>k\<in>set lens. k \<noteq> length s \<longrightarrow> f k = None"
    using n_le by (auto simp: set_l f_def)
  have fk0: "f (length s) = Some [s]" by (simp add: f_def)
  have all_n: "(\<forall>c\<in>set s. in_class cl c) \<longleftrightarrow> n = length s"
    unfolding n_def by (metis takeWhile_eq_all_conv length_takeWhile_le takeWhile_eq_take take_all order_refl)
  have "length s \<in> set lens \<longleftrightarrow> s \<noteq> [] \<and> (\<forall>c\<in>set s. in_class cl c)"
    using n_le by (auto simp: set_l all_n Suc_le_eq)
  with first_match_unique [OF uniq] run_eq fk0 show ?thesis by simp
qed


lemma last_slash_unique:
  "a @ CHR ''/'' # x = b @ CHR ''/'' # y \<Longrightarrow> CHR ''/'' \<notin> set x \<Longrightarrow> CHR ''/'' \<notin> set y \<Longrightarrow>
   a = b \<and> x = y"
proof (induction a arbitrary: b)
  case Nil
  then show ?case by (cases b) auto
next
  case (Cons c a)
  then show ?case by (cases b) auto
qed

lemma run_slash_tail:
  "run [Literal CHR ''/'', Capture (NotChar CHR ''/'') True] t =
     (case t of [] \<Rightarrow> None
      | x # xs \<Rightarrow> if x = CHR ''/'' \<and> xs \<noteq> [] \<and> CHR ''/'' \<notin> set xs then Some [xs] else None)"
  by (cases t) (auto simp: run_capture_end simp del: run.simps(3))


lemma run_item_elim:
  assumes "run item_tail s = Some cs"
  shows "\<exists>g1 g2. s = g1 @ CHR ''/'' # g2 \<and> g1 \<noteq> [] \<and> CHR 0x0A \<notin> set g1 \<and> g2 \<noteq> [] \<and>
           CHR ''/'' \<notin> set g2 \<and> cs = [g1, g2]"
proof -
  define n where "n = length (takeWhile (in_class AnyCharNotNL) s)"
  define f where "f = (\<lambda>k. map_option ((#) (take k s))
     (run [Literal CHR ''/'', Capture (NotChar CHR ''/'') True] (drop k s)))"
  have "first_match f [1..<Suc n] = Some cs"
    using assms by (simp add: item_tail_def n_def f_def Let_def)
  then obtain k where k: "1 \<le> k" "k \<le> n" and fk: "f k = Some cs"
    by (auto dest!: first_match_Some)
  from fk obtain xs where dk: "drop k s = CHR ''/'' # xs" and xs: "xs \<noteq> []" "CHR ''/'' \<notin> set xs"
    and cs: "cs = [take k s, xs]"
    by (auto simp: f_def run_slash_tail simp del: run.simps split: list.splits if_splits)
  have n_le: "n \<le> length s" unfolding n_def by (rule length_takeWhile_le)
  have tk: "take k s = take k (takeWhile (in_class AnyCharNotNL) s)"
    using k(2) unfolding n_def
    by (metis append_take_drop_id takeWhile_dropWhile_id length_takeWhile_le take_append
        diff_is_0_eq take_0 append_Nil2 min.absorb2 take_take takeWhile_eq_take n_def)
  have nl: "CHR 0x0A \<notin> set (take k s)"
  proof
    assume "CHR 0x0A \<in> set (take k s)"
    then have "CHR 0x0A \<in> set (takeWhile (in_class AnyCharNotNL) s)"
      unfolding tk by (rule in_set_takeD)
    then show False by (auto dest: set_takeWhileD)
  qed
  have ne: "take k s \<noteq> []" using k n_le by auto
  have "s = take k s @ CHR ''/'' # xs" using dk by (metis append_take_drop_id)
  with nl ne xs cs show ?thesis by blast
qed

lemma run_item_intro:
  assumes "g1 \<noteq> []" "CHR 0x0A \<notin> set g1" "g2 \<noteq> []" "CHR ''/'' \<notin> set g2"
  shows "run item_tail (g1 @ CHR ''/'' # g2) = Some [g1, g2]"
proof -
  define s where "s = g1 @ CHR ''/'' # g2"
  define n where "n = length (takeWhile (in_class AnyCharNotNL) s)"
  define f where "f = (\<lambda>k. map_option ((#) (take k s))
     (run [Literal CHR ''/'', Capture (NotChar CHR ''/'') True] (drop k s)))"
  have run_eq: "run item_tail s = first_match f [1..<Suc n]"
    by (simp add: item_tail_def n_def f_def Let_def)
  have "takeWhile (in_class AnyCharNotNL) s = g1 @ takeWhile (in_class AnyCharNotNL) (CHR ''/'' # g2)"
    unfolding s_def using assms(2) by (intro takeWhile_append2) auto
  then have n_ge: "length g1 \<le> n" unfolding n_def by simp
  have fk0: "f (length g1) = Some [g1, g2]"
    using assms by (simp add: f_def s_def run_slash_tail del: run.simps)
  have uniq: "\<forall>k\<in>set [1..<Suc n]. k \<noteq> length g1 \<longrightarrow> f k = None"
  proof (intro ballI impI)
    fix k assume k: "k \<in> set [1..<Suc n]" and neq: "k \<noteq> length g1"
    have n_le: "n \<le> length s" unfolding n_def by (rule length_takeWhile_le)
    show "f k = None"
    proof (rule ccontr)
      assume "f k \<noteq> None"
      then obtain xs where dk: "drop k s = CHR ''/'' # xs" and xs: "CHR ''/'' \<notin> set xs"
        by (auto simp: f_def run_slash_tail simp del: run.simps split: list.splits if_splits)
      have "take k s @ CHR ''/'' # xs = g1 @ CHR ''/'' # g2"
        using dk unfolding s_def by (metis append_take_drop_id)
      from last_slash_unique [OF this xs assms(4)] have "take k s = g1" by simp
      then have "k = length g1" using k n_le by (auto simp: min_def split: if_splits)
      with neq show False by simp
    qed
  qed
  have "length g1 \<in> set [1..<Suc n]" using assms(1) n_ge by (cases g1) auto
  with first_match_unique [OF uniq] run_eq fk0 show ?thesis by (simp add: s_def)
qed


lemma compile_root: "MustCompile ''^$'' = Some []"
  by code_simp
lemma compile_album: "MustCompile ''^album$'' = Some (literals ''album'')"
  by code_simp
lemma compile_album_dir:
  "MustCompile ''^album/(.+)$'' = Some (literals ''album/'' @ [Capture AnyCharNotNL True])"
  by code_simp
lemma compile_album_item:
  "MustCompile ''^album/(.+?)/([^/]+)$'' = Some (literals ''album/'' @ item_tail)"
  by code_simp
lemma compile_playlist: "MustCompile ''^playlist$'' = Some (literals ''playlist'')"
  by code_simp
lemma compile_playlist_dir:
  "MustCompile ''^playlist/(.+)$'' = Some (literals ''playlist/'' @ [Capture AnyCharNotNL True])"
  by code_simp
lemma compile_playlist_item:
  "MustCompile ''^playlist/(.+?)/([^/]+)$'' = Some (literals ''playlist/'' @ item_tail)"
  by code_simp

lemmas compile_simps = compile_root compile_album compile_album_dir compile_album_item
  compile_playlist compile_playlist_dir compile_playlist_item

lemma patterns_eq:
  "patterns =
         [\<lparr>re = ''^$'', match = Some [], canUpload = False, canMkdir = False, isFile = False,
            toEntries = Some root_toEntries\<rparr>,
          \<lparr>re = ''^album$'', match = Some (literals ''album''), canUpload = False,
            canMkdir = False, isFile = False,
            toEntries = Some (containers_toEntries AlbumContainerType)\<rparr>,
          \<lparr>re = ''^album/(.+)$'',
            match = Some (literals ''album/'' @ [Capture AnyCharNotNL True]),
            canUpload = False, canMkdir = True, isFile = False,
            toEntries = Some (photos_toEntries AlbumContainerType)\<rparr>,
          \<lparr>re = ''^album/(.+?)/([^/]+)$'', match = Some (literals ''album/'' @ item_tail),
            canUpload = True, canMkdir = False, isFile = True, toEntries = None\<rparr>,
          \<lparr>re = ''^playlist$'', match = Some (literals ''playlist''), canUpload = False,
            canMkdir = False, isFile = False,
            toEntries = Some (containers_toEntries PlaylistContainerType)\<rparr>,
          \<lparr>re = ''^playlist/(.+)$'',
            match = Some (literals ''playlist/'' @ [Capture AnyCharNotNL True]),
            canUpload = False, canMkdir = True, isFile = False,
            toEntries = Some (photos_toEntries PlaylistContainerType)\<rparr>,
          \<lparr>re = ''^playlist/(.+?)/([^/]+)$'',
            match = Some (literals ''playlist/'' @ item_tail),
            canUpload = True, canMkdir = False, isFile = True, toEntries = None\<rparr>]"
  unfolding patterns_def patterns_literal_def zero_dirPattern_def
  by (simp add: compile_simps)

lemma mustCompile_patterns: "mustCompile patterns_literal = Inr patterns"
  unfolding patterns_eq unfolding patterns_literal_def zero_dirPattern_def
  by (simp add: compile_simps)

lemma length_patterns: "length patterns = 7"
  by (simp add: patterns_eq)

lemma match_compiled: "p \<in> set patterns \<Longrightarrow> match p \<noteq> None"
  by (auto simp: patterns_eq)

lemma match_loop_find:
  assumes "\<forall>q\<in>set ds. match q \<noteq> None"
  shows "match_loop ds b a pre =
     (case find (\<lambda>q. isFile q = b \<and> matches q a) ds of
        None \<Rightarrow> Inr ([], [], None)
      | Some q \<Rightarrow> Inr (the (FindStringSubmatch (the (match q)) a), pre, Some q))"
  using assms
proof (induction ds)
  case Nil
  then show ?case by simp
next
  case (Cons q ds)
  then show ?case by (auto simp: matches_def split: option.splits)
qed

lemma dirPatterns_match_find:
  "dirPatterns_match patterns rt p b =
     (let a = Join [rt, Trim p ''/'']
      in if length rt \<le> length a then
           (case find (\<lambda>q. isFile q = b \<and> matches q a) patterns of
              None \<Rightarrow> Inr ([], [], None)
            | Some q \<Rightarrow> Inr (the (FindStringSubmatch (the (match q)) a), prefix_of rt a, Some q))
         else Inl PanicSliceBounds)"
proof -
  have "\<forall>q\<in>set patterns. match q \<noteq> None"
    using match_compiled by blast
  note loop = match_loop_find [OF this]
  show ?thesis
    by (simp add: dirPatterns_match_def slice_from_def Let_def prefix_of_def loop
        split: option.splits)
qed

declare run.simps [simp del]

lemma FSS_nil: "FindStringSubmatch [] s = (if s = [] then Some [''''] else None)"
  by (simp add: FindStringSubmatch_def run.simps)

lemma FSS_literals: "FindStringSubmatch (literals l) s = (if s = l then Some [s] else None)"
proof -
  have "take (length l) s = l \<and> drop (length l) s = [] \<longleftrightarrow> s = l"
  proof
    assume "take (length l) s = l \<and> drop (length l) s = []"
    then have "take (length l) s @ drop (length l) s = l" by simp
    then show "s = l" by (simp only: append_take_drop_id)
  next
    assume "s = l"
    then show "take (length l) s = l \<and> drop (length l) s = []" by simp
  qed
  then show ?thesis
    using run_literals [of l "[]" s] by (auto simp: FindStringSubmatch_def run.simps)
qed

lemma FSS_dir:
  "FindStringSubmatch (literals l @ [Capture AnyCharNotNL True]) s = Some m \<longleftrightarrow>
     (\<exists>g. s = l @ g \<and> g \<noteq> [] \<and> CHR 0x0A \<notin> set g \<and> m = [s, g])"
proof -
  have tk: "take (length l) s = l \<longleftrightarrow> (\<exists>g. s = l @ g)"
  proof
    assume "take (length l) s = l"
    then have "s = l @ drop (length l) s" by (metis append_take_drop_id)
    then show "\<exists>g. s = l @ g" ..
  next
    assume "\<exists>g. s = l @ g"
    then show "take (length l) s = l" by auto
  qed
  show ?thesis
  proof (cases "\<exists>g. s = l @ g")
    case True
    then obtain g where "s = l @ g" ..
    then show ?thesis
      by (auto simp: FindStringSubmatch_def run_literals run_capture_end)
  next
    case False
    then show ?thesis
      using tk by (auto simp: FindStringSubmatch_def run_literals)
  qed
qed

lemma FSS_item_Some:
  "FindStringSubmatch (literals l @ item_tail) s = Some m \<longleftrightarrow>
     (\<exists>g1 g2. s = l @ g1 @ CHR ''/'' # g2 \<and> g1 \<noteq> [] \<and> CHR 0x0A \<notin> set g1 \<and> g2 \<noteq> [] \<and>
        CHR ''/'' \<notin> set g2 \<and> m = [s, g1, g2])"
proof
  assume "FindStringSubmatch (literals l @ item_tail) s = Some m"
  then obtain cs where tk: "take (length l) s = l" and r: "run item_tail (drop (length l) s) = Some cs"
    and m: "m = s # cs"
    by (auto simp: FindStringSubmatch_def run_literals split: if_splits)
  from run_item_elim [OF r] obtain g1 g2 where
    g: "drop (length l) s = g1 @ CHR ''/'' # g2" "g1 \<noteq> []" "CHR 0x0A \<notin> set g1" "g2 \<noteq> []"
       "CHR ''/'' \<notin> set g2" "cs = [g1, g2]"
    by blast
  have "s = l @ g1 @ CHR ''/'' # g2" using tk g(1) by (metis append_take_drop_id)
  with g m show "\<exists>g1 g2. s = l @ g1 @ CHR ''/'' # g2 \<and> g1 \<noteq> [] \<and> CHR 0x0A \<notin> set g1 \<and> g2 \<noteq> [] \<and>
        CHR ''/'' \<notin> set g2 \<and> m = [s, g1, g2]" by blast
next
  assume "\<exists>g1 g2. s = l @ g1 @ CHR ''/'' # g2 \<and> g1 \<noteq> [] \<and> CHR 0x0A \<notin> set g1 \<and> g2 \<noteq> [] \<and>
        CHR ''/'' \<notin> set g2 \<and> m = [s, g1, g2]"
  then obtain g1 g2 where g: "s = l @ g1 @ CHR ''/'' # g2" "g1 \<noteq> []" "CHR 0x0A \<notin> set g1"
      "g2 \<noteq> []" "CHR ''/'' \<notin> set g2" "m = [s, g1, g2]"
    by blast
  show "FindStringSubmatch (literals l @ item_tail) s = Some m"
    using run_item_intro [OF g(2-5)] g(1,6) by (simp add: FindStringSubmatch_def run_literals)
qed

lemma matches_dir_shape:
  "matches (patterns ! 0) s \<longleftrightarrow> s = []"
  "matches (patterns ! Suc 0) s \<longleftrightarrow> s = ''album''"
  "matches (patterns ! 2) s \<longleftrightarrow> (\<exists>g. s = ''album/'' @ g \<and> g \<noteq> [] \<and> CHR 0x0A \<notin> set g)"
  "matches (patterns ! 4) s \<longleftrightarrow> s = ''playlist''"
  "matches (patterns ! 5) s \<longleftrightarrow> (\<exists>g. s = ''playlist/'' @ g \<and> g \<noteq> [] \<and> CHR 0x0A \<notin> set g)"
  by (auto simp: matches_def patterns_eq FSS_nil FSS_literals FSS_dir)

lemma matches_item_shape:
  "matches (patterns ! 3) s \<longleftrightarrow>
     (\<exists>g1 g2. s = ''album/'' @ g1 @ CHR ''/'' # g2 \<and> g1 \<noteq> [] \<and> CHR 0x0A \<notin> set g1 \<and>
        g2 \<noteq> [] \<and> CHR ''/'' \<notin> set g2)"
  "matches (patterns ! 6) s \<longleftrightarrow>
     (\<exists>g1 g2. s = ''playlist/'' @ g1 @ CHR ''/'' # g2 \<and> g1 \<noteq> [] \<and> CHR 0x0A \<notin> set g1 \<and>
        g2 \<noteq> [] \<and> CHR ''/'' \<notin> set g2)"
  by (auto simp: matches_def patterns_eq FSS_item_Some)

lemma patterns_nths:
  "patterns = [patterns ! 0, patterns ! Suc 0, patterns ! 2, patterns ! 3, patterns ! 4,
               patterns ! 5, patterns ! 6]"
  by (simp add: patterns_eq)

lemma isFile_nths:
  "\<not> isFile (patterns ! 0)" "\<not> isFile (patterns ! Suc 0)" "\<not> isFile (patterns ! 2)"
  "isFile (patterns ! 3)" "\<not> isFile (patterns ! 4)" "\<not> isFile (patterns ! 5)"
  "isFile (patterns ! 6)"
  by (simp_all add: patterns_eq)

lemma filter_file_matches:
  "filter (\<lambda>q. isFile q \<and> matches q s) patterns =
     (if matches (patterns ! 3) s then [patterns ! 3] else []) @
     (if matches (patterns ! 6) s then [patterns ! 6] else [])"
  by (subst patterns_nths) (simp add: isFile_nths)

lemma filter_dir_matches:
  "filter (\<lambda>q. \<not> isFile q \<and> matches q s) patterns =
     (if matches (patterns ! 0) s then [patterns ! 0] else []) @
     (if matches (patterns ! Suc 0) s then [patterns ! Suc 0] else []) @
     (if matches (patterns ! 2) s then [patterns ! 2] else []) @
     (if matches (patterns ! 4) s then [patterns ! 4] else []) @
     (if matches (patterns ! 5) s then [patterns ! 5] else [])"
  by (subst patterns_nths) (simp add: isFile_nths)


lemma match_nths:
  "match (patterns ! 0) = Some []"
  "match (patterns ! Suc 0) = Some (literals ''album'')"
  "match (patterns ! 2) = Some (literals ''album/'' @ [Capture AnyCharNotNL True])"
  "match (patterns ! 3) = Some (literals ''album/'' @ item_tail)"
  "match (patterns ! 4) = Some (literals ''playlist'')"
  "match (patterns ! 5) = Some (literals ''playlist/'' @ [Capture AnyCharNotNL True])"
  "match (patterns ! 6) = Some (literals ''playlist/'' @ item_tail)"
  by (simp_all add: patterns_eq)

lemma find_file:
  "find (\<lambda>q. isFile q \<and> matches q a) patterns =
     (if matches (patterns ! 3) a then Some (patterns ! 3)
      else if matches (patterns ! 6) a then Some (patterns ! 6) else None)"
proof -
  have "find (\<lambda>q. isFile q \<and> matches q a) patterns =
        find (\<lambda>q. isFile q \<and> matches q a)
          [patterns ! 0, patterns ! Suc 0, patterns ! 2, patterns ! 3, patterns ! 4,
           patterns ! 5, patterns ! 6]"
    using patterns_nths by simp
  then show ?thesis by (simp add: isFile_nths)
qed

lemma find_dir:
  "find (\<lambda>q. \<not> isFile q \<and> matches q a) patterns =
     (if matches (patterns ! 0) a then Some (patterns ! 0)
      else if matches (patterns ! Suc 0) a then Some (patterns ! Suc 0)
      else if matches (patterns ! 2) a then Some (patterns ! 2)
      else if matches (patterns ! 4) a then Some (patterns ! 4)
      else if matches (patterns ! 5) a then Some (patterns ! 5) else None)"
proof -
  have "find (\<lambda>q. \<not> isFile q \<and> matches q a) patterns =
        find (\<lambda>q. \<not> isFile q \<and> matches q a)
          [patterns ! 0, patterns ! Suc 0, patterns ! 2, patterns ! 3, patterns ! 4,
           patterns ! 5, patterns ! 6]"
    using patterns_nths by simp
  then show ?thesis by (simp add: isFile_nths)
qed

lemma file_match_Some:
  assumes "dirPatterns_match patterns rt p True = Inr (m, pre, Some pat)"
  shows "\<exists>l g1 g2. (pat = patterns ! 3 \<and> l = ''album/'' \<or> pat = patterns ! 6 \<and> l = ''playlist/'') \<and>
           Join [rt, Trim p ''/''] = l @ g1 @ CHR ''/'' # g2 \<and>
           g1 \<noteq> [] \<and> CHR 0x0A \<notin> set g1 \<and> g2 \<noteq> [] \<and> CHR ''/'' \<notin> set g2 \<and>
           m = [Join [rt, Trim p ''/''], g1, g2] \<and>
           length rt \<le> length (Join [rt, Trim p ''/'']) \<and>
           pre = prefix_of rt (Join [rt, Trim p ''/''])"
proof -
  let ?a = "Join [rt, Trim p ''/'']"
  from assms have len: "length rt \<le> length ?a"
    and res: "matches (patterns ! 3) ?a \<and> pat = patterns ! 3 \<and>
          m = the (FindStringSubmatch (literals ''album/'' @ item_tail) ?a) \<and>
          pre = prefix_of rt ?a \<or>
        matches (patterns ! 6) ?a \<and> pat = patterns ! 6 \<and>
          m = the (FindStringSubmatch (literals ''playlist/'' @ item_tail) ?a) \<and>
          pre = prefix_of rt ?a"
    by (auto simp: dirPatterns_match_find Let_def find_file match_nths split: if_splits)
  from res consider
      (album) "matches (patterns ! 3) ?a" "pat = patterns ! 3"
        "m = the (FindStringSubmatch (literals ''album/'' @ item_tail) ?a)" "pre = prefix_of rt ?a"
    | (playlist) "matches (patterns ! 6) ?a" "pat = patterns ! 6"
        "m = the (FindStringSubmatch (literals ''playlist/'' @ item_tail) ?a)" "pre = prefix_of rt ?a"
    by blast
  then show ?thesis
  proof cases
    case album
    from album(1) obtain m' where "FindStringSubmatch (literals ''album/'' @ item_tail) ?a = Some m'"
      by (auto simp: matches_def match_nths)
    with album len show ?thesis
      by (auto simp: FSS_item_Some)
  next
    case playlist
    from playlist(1) obtain m' where
      "FindStringSubmatch (literals ''playlist/'' @ item_tail) ?a = Some m'"
      by (auto simp: matches_def match_nths)
    with playlist len show ?thesis
      by (auto simp: FSS_item_Some)
  qed
qed


section \<open>The claims, each after the lemmas it rests on\<close>

text \<open>
  C6. No two rules of the table with the same style flag match the same absolute path:
  for every path (in particular every path of the grammar root, kind, kind/name,
  kind/name/item) and each style, at most one rule of that style matches.
\<close>

theorem rules_mutually_exclusive:
  "length (filter (\<lambda>q. isFile q = b \<and> matches q s) patterns) \<le> 1"
proof (cases b)
  case True
  have "\<not> (matches (patterns ! 3) s \<and> matches (patterns ! 6) s)"
    by (auto simp: matches_item_shape)
  then show ?thesis using True by (auto simp: filter_file_matches)
next
  case False
  have "matches (patterns ! 0) s \<Longrightarrow> s = []"
    and "matches (patterns ! Suc 0) s \<Longrightarrow> s = ''album''"
    and "matches (patterns ! 2) s \<Longrightarrow> \<exists>g. s = ''album/'' @ g"
    and "matches (patterns ! 4) s \<Longrightarrow> s = ''playlist''"
    and "matches (patterns ! 5) s \<Longrightarrow> \<exists>g. s = ''playlist/'' @ g"
    by (auto simp: matches_dir_shape)
  then show ?thesis using False by (auto simp: filter_dir_matches)
qed

text \<open>
  C10. Whenever \<open>match\<close> with file style returns a rule, the captures have length exactly 3:
  the whole match and two groups. So the reads of elements 1 and 2 that \<open>NewObject\<close> and
  \<open>Put\<close> make are in bounds, and neither operation ever ends in an index panic.
\<close>

theorem file_match_three_captures:
  "(dirPatterns_match patterns rt p True = Inr (m, pre, Some pat) \<longrightarrow>
      length m = 3 \<and> index m 1 = Inr (m ! 1) \<and> index m 2 = Inr (m ! 2)) \<and>
   NewObject containerType f p \<noteq> Inl PanicIndex \<and>
   Put containerType f inp src \<noteq> Inl PanicIndex"
proof -
  have captures: "length m = 3 \<and> index m 1 = Inr (m ! 1) \<and> index m 2 = Inr (m ! 2)"
    if "dirPatterns_match patterns rt p True = Inr (m, pre, Some pat)"
    using file_match_Some [OF that] by (auto simp: index_def)
  have new: "NewObject containerType f p \<noteq> Inl PanicIndex"
  proof (cases "dirPatterns_match patterns (root f) p True")
    case (Inl e)
    then have "e = PanicSliceBounds"
      by (auto simp: dirPatterns_match_find Let_def split: if_splits option.splits)
    with Inl show ?thesis by (simp add: NewObject_def)
  next
    case (Inr r)
    obtain m pre pat where r: "r = (m, pre, pat)" by (cases r)
    show ?thesis
    proof (cases pat)
      case None
      with Inr r show ?thesis by (simp add: NewObject_def)
    next
      case (Some q)
      with Inr r have "dirPatterns_match patterns (root f) p True = Inr (m, pre, Some q)" by simp
      from file_match_Some [OF this] have "index m 1 = Inr (m ! 1)" "index m 2 = Inr (m ! 2)"
        by (auto simp: index_def)
      with Inr r Some show ?thesis
        by (simp add: NewObject_def split: sum.splits option.splits)
    qed
  qed
  have put: "Put containerType f inp src \<noteq> Inl PanicIndex"
  proof (cases "dirPatterns_match patterns (root f) (src_Remote src) True")
    case (Inl e)
    then have "e = PanicSliceBounds"
      by (auto simp: dirPatterns_match_find Let_def split: if_splits option.splits)
    with Inl show ?thesis by (simp add: Put_def)
  next
    case (Inr r)
    obtain m pre pat where r: "r = (m, pre, pat)" by (cases r)
    show ?thesis
    proof (cases pat)
      case None
      with Inr r show ?thesis by (simp add: Put_def)
    next
      case (Some q)
      with Inr r have "dirPatterns_match patterns (root f) (src_Remote src) True = Inr (m, pre, Some q)"
        by simp
      from file_match_Some [OF this] have "index m 1 = Inr (m ! 1)" "index m 2 = Inr (m ! 2)"
        by (auto simp: index_def)
      with Inr r Some show ?thesis
        by (simp add: Put_def Let_def split: sum.splits option.splits)
    qed
  qed
  from captures new put show ?thesis by blast
qed

lemma example_album_item:
  "dirPatterns_match patterns '''' ''album/Vacation/img1.jpg'' True =
     Inr ([''album/Vacation/img1.jpg'', ''Vacation'', ''img1.jpg''],
          ''album/Vacation/img1.jpg/'', Some (patterns ! 3))"
proof -
  have a: "Join ['''', Trim ''album/Vacation/img1.jpg'' ''/''] = ''album/Vacation/img1.jpg''"
    by code_simp
  have m3: "matches (patterns ! 3) ''album/Vacation/img1.jpg''"
    by code_simp
  have c: "the (FindStringSubmatch (the (match (patterns ! 3))) ''album/Vacation/img1.jpg'') =
             [''album/Vacation/img1.jpg'', ''Vacation'', ''img1.jpg'']"
    by code_simp
  have pre: "prefix_of '''' ''album/Vacation/img1.jpg'' = ''album/Vacation/img1.jpg/''"
    by code_simp
  show ?thesis
    by (simp add: dirPatterns_match_find a find_file m3 c pre Let_def)
qed

theorem file_match_three_captures_witness:
  "dirPatterns_match patterns '''' ''album/Vacation/img1.jpg'' True =
     Inr ([''album/Vacation/img1.jpg'', ''Vacation'', ''img1.jpg''],
          ''album/Vacation/img1.jpg/'', Some (patterns ! 3)) \<and>
   length [''album/Vacation/img1.jpg'', ''Vacation'', ''img1.jpg''] = 3"
  using file_match_three_captures [of "''''" "''album/Vacation/img1.jpg''"
      "[''album/Vacation/img1.jpg'', ''Vacation'', ''img1.jpg'']" "''album/Vacation/img1.jpg/''"
      "patterns ! 3"] example_album_item
  by simp

text \<open>
  C7. In the pattern table \<open>canUpload\<close> is true exactly on the two item rules and
  \<open>canMkdir\<close> exactly on the two collection rules; so a rule with \<open>canUpload\<close> is a file
  rule and a rule with \<open>canMkdir\<close> is a directory rule.
\<close>

theorem table_capability_flags:
  "map (\<lambda>p. (re p, isFile p, canUpload p, canMkdir p)) patterns =
     [(''^$'', False, False, False),
      (''^album$'', False, False, False),
      (''^album/(.+)$'', False, False, True),
      (''^album/(.+?)/([^/]+)$'', True, True, False),
      (''^playlist$'', False, False, False),
      (''^playlist/(.+)$'', False, False, True),
      (''^playlist/(.+?)/([^/]+)$'', True, True, False)] \<and>
   (\<forall>p\<in>set patterns. canUpload p \<longrightarrow> isFile p) \<and>
   (\<forall>p\<in>set patterns. canMkdir p \<longrightarrow> \<not> isFile p)"
  by (simp add: patterns_eq)

theorem table_capability_flags_witness:
  "patterns ! 3 \<in> set patterns \<and> canUpload (patterns ! 3) \<and> isFile (patterns ! 3) \<and>
   patterns ! 2 \<in> set patterns \<and> canMkdir (patterns ! 2) \<and> \<not> isFile (patterns ! 2)"
proof -
  have mem: "patterns ! 3 \<in> set patterns" "patterns ! 2 \<in> set patterns"
    by (simp_all add: length_patterns)
  have flags: "canUpload (patterns ! 3)" "canMkdir (patterns ! 2)"
    by (simp_all add: patterns_eq)
  from table_capability_flags have
    "\<forall>p\<in>set patterns. canUpload p \<longrightarrow> isFile p" "\<forall>p\<in>set patterns. canMkdir p \<longrightarrow> \<not> isFile p"
    by blast+
  with mem flags show ?thesis by blast
qed

text \<open>
  C4. \<open>match\<close> with root \<^verbatim>\<open>""\<close> on \<^verbatim>\<open>album/Vacation/img1.jpg\<close> in file style returns the
  album item rule, with capture 1 \<^verbatim>\<open>Vacation\<close>, capture 2 \<^verbatim>\<open>img1.jpg\<close>, and the rule's
  \<open>canUpload\<close> is true.
\<close>

theorem match_album_item:
  "dirPatterns_match patterns '''' ''album/Vacation/img1.jpg'' True =
     Inr ([''album/Vacation/img1.jpg'', ''Vacation'', ''img1.jpg''],
          ''album/Vacation/img1.jpg/'', Some (patterns ! 3)) \<and>
   re (patterns ! 3) = ''^album/(.+?)/([^/]+)$'' \<and>
   isFile (patterns ! 3) \<and> canUpload (patterns ! 3)"
  using example_album_item by (simp add: patterns_eq)

lemma example_album_one_segment:
  "dirPatterns_match patterns '''' ''album/Vacation'' True = Inr ([], [], None)"
proof -
  have a: "Join ['''', Trim ''album/Vacation'' ''/''] = ''album/Vacation''"
    by code_simp
  have m3: "\<not> matches (patterns ! 3) ''album/Vacation''"
    by code_simp
  have m6: "\<not> matches (patterns ! 6) ''album/Vacation''"
    by code_simp
  show ?thesis
    by (simp add: dirPatterns_match_find a find_file m3 m6 Let_def)
qed

lemma example_album_collection:
  "dirPatterns_match patterns '''' ''album/Vacation'' False =
     Inr ([''album/Vacation'', ''Vacation''], ''album/Vacation/'', Some (patterns ! 2))"
proof -
  have a: "Join ['''', Trim ''album/Vacation'' ''/''] = ''album/Vacation''"
    by code_simp
  have m: "\<not> matches (patterns ! 0) ''album/Vacation''"
    "\<not> matches (patterns ! Suc 0) ''album/Vacation''" "matches (patterns ! 2) ''album/Vacation''"
    by code_simp+
  have c: "the (FindStringSubmatch (the (match (patterns ! 2))) ''album/Vacation'') =
             [''album/Vacation'', ''Vacation'']"
    by code_simp
  have pre: "prefix_of '''' ''album/Vacation'' = ''album/Vacation/''"
    by code_simp
  show ?thesis
    by (simp add: dirPatterns_match_find a find_dir m c pre Let_def)
qed

text \<open>
  C5. \<open>match\<close> with root \<^verbatim>\<open>""\<close> on \<^verbatim>\<open>album/Vacation\<close> in file style returns no rule: no
  file rule matches a path with one segment under the kind. In directory style the same
  path is the album collection, with capture 1 \<^verbatim>\<open>Vacation\<close>.
\<close>

theorem match_one_segment_file_style:
  "dirPatterns_match patterns '''' ''album/Vacation'' True = Inr ([], [], None) \<and>
   filter (\<lambda>q. isFile q \<and> matches q ''album/Vacation'') patterns = [] \<and>
   dirPatterns_match patterns '''' ''album/Vacation'' False =
     Inr ([''album/Vacation'', ''Vacation''], ''album/Vacation/'', Some (patterns ! 2))"
proof -
  have "\<not> matches (patterns ! 3) ''album/Vacation''" "\<not> matches (patterns ! 6) ''album/Vacation''"
    by code_simp+
  then have "filter (\<lambda>q. isFile q \<and> matches q ''album/Vacation'') patterns = []"
    by (simp add: filter_file_matches)
  with example_album_one_segment example_album_collection show ?thesis by simp
qed

lemma example_root:
  "dirPatterns_match patterns '''' '''' False = Inr ([''''], '''', Some (patterns ! 0))"
proof -
  have a: "Join ['''', Trim '''' ''/''] = ''''"
    by code_simp
  have m: "matches (patterns ! 0) ''''"
    by code_simp
  have c: "the (FindStringSubmatch (the (match (patterns ! 0))) '''') = ['''']"
    by code_simp
  have pre: "prefix_of '''' '''' = ''''"
    by code_simp
  show ?thesis
    by (simp add: dirPatterns_match_find a find_dir m c pre Let_def)
qed

text \<open>
  C8. \<open>match\<close> with root \<^verbatim>\<open>""\<close> on the path \<^verbatim>\<open>""\<close> in directory style returns the root
  rule. Its \<open>toEntries\<close> returns exactly two directory entries, named by the prefix
  followed by \<^verbatim>\<open>album\<close> and by \<^verbatim>\<open>playlist\<close> and stamped with the lister's time, whatever
  the lister, the prefix and the captures. Listing the root of a filesystem mounted at
  \<^verbatim>\<open>""\<close> gives these two entries with the empty prefix.
\<close>

theorem match_root_lists_two_kinds:
  "dirPatterns_match patterns '''' '''' False = Inr ([''''], '''', Some (patterns ! 0)) \<and>
   re (patterns ! 0) = ''^$'' \<and>
   (\<exists>g. toEntries (patterns ! 0) = Some g \<and>
      (\<forall>f prefix m. g f prefix m =
         Inr [Directory \<lparr>Remote = prefix @ ''album'', ModTime = dirTime f, ID = [], Items = - 1\<rparr>,
              Directory \<lparr>Remote = prefix @ ''playlist'', ModTime = dirTime f, ID = [],
                Items = - 1\<rparr>])) \<and>
   List (fs\<lparr>root := ''''\<rparr>) '''' =
     Inr [Directory \<lparr>Remote = ''album'', ModTime = startTime fs, ID = [], Items = - 1\<rparr>,
          Directory \<lparr>Remote = ''playlist'', ModTime = startTime fs, ID = [], Items = - 1\<rparr>]"
proof -
  have t: "toEntries (patterns ! 0) = Some root_toEntries" "re (patterns ! 0) = ''^$''"
    "\<not> isFile (patterns ! 0)"
    by (simp_all add: patterns_eq)
  have g: "root_toEntries f prefix m =
         Inr [Directory \<lparr>Remote = prefix @ ''album'', ModTime = dirTime f, ID = [], Items = - 1\<rparr>,
              Directory \<lparr>Remote = prefix @ ''playlist'', ModTime = dirTime f, ID = [],
                Items = - 1\<rparr>]" for f prefix m
    by (simp add: root_toEntries_def NewDir_def)
  have l: "List (fs\<lparr>root := ''''\<rparr>) '''' =
     Inr [Directory \<lparr>Remote = ''album'', ModTime = startTime fs, ID = [], Items = - 1\<rparr>,
          Directory \<lparr>Remote = ''playlist'', ModTime = startTime fs, ID = [], Items = - 1\<rparr>]"
    by (simp add: List_def example_root t g Fs_lister_def)
  from example_root t g l show ?thesis by simp
qed

lemma Trim_ends:
  "Trim s cutset = [] \<or> (hd (Trim s cutset) \<notin> set cutset \<and> last (Trim s cutset) \<notin> set cutset)"
proof (cases "Trim s cutset = []")
  case True
  then show ?thesis by simp
next
  case False
  define P where "P = (\<lambda>c. c \<in> set cutset)"
  define u where "u = dropWhile P s"
  define v where "v = dropWhile P (rev u)"
  have t: "Trim s cutset = rev v" by (simp add: Trim_def P_def u_def v_def)
  with False have v: "v \<noteq> []" by simp
  then have hv: "\<not> P (hd v)" unfolding v_def by (rule hd_dropWhile)
  have "rev u = takeWhile P (rev u) @ v" unfolding v_def by simp
  then have "rev (rev u) = rev (takeWhile P (rev u) @ v)" by (rule arg_cong)
  then have u: "u = rev v @ rev (takeWhile P (rev u))" by simp
  with v have "u \<noteq> []" by auto
  then have hu: "\<not> P (hd u)" unfolding u_def by (rule hd_dropWhile)
  have "hd u = hd (rev v)" using u v by (metis hd_append2 rev_is_Nil_conv)
  with hu have 1: "\<not> P (hd (rev v))" by simp
  have 2: "\<not> P (last (rev v))" using hv v by (simp add: last_rev)
  from 1 2 show ?thesis unfolding t P_def by simp
qed

lemma match_depends_on_absPath:
  assumes "dirPatterns_match patterns rt p wantFile = Inr (m, pre, Some pat)"
    and "Join [rt', Trim p' ''/''] = Join [rt, Trim p ''/'']"
    and "length rt' \<le> length (Join [rt, Trim p ''/''])"
  shows "dirPatterns_match patterns rt' p' wantFile =
           Inr (m, prefix_of rt' (Join [rt, Trim p ''/'']), Some pat)"
  using assms
  by (auto simp: dirPatterns_match_find Let_def split: if_splits option.splits)

lemma match_prefix_by_length:
  assumes "dirPatterns_match patterns rt p wantFile = Inr (m, pre, Some pat)"
  shows "length rt \<le> length (Join [rt, Trim p ''/'']) \<and>
     pre = (let t = Trim (drop (length rt) (Join [rt, Trim p ''/''])) ''/''
            in if t = [] then [] else t @ ''/'') \<and>
     (pre = [] \<or> (\<exists>t. pre = t @ ''/'' \<and> t \<noteq> [] \<and> hd t \<noteq> CHR ''/'' \<and> last t \<noteq> CHR ''/'')) \<and>
     (\<forall>rt' p'. Join [rt', Trim p' ''/''] = Join [rt, Trim p ''/''] \<and>
         length rt' \<le> length (Join [rt, Trim p ''/'']) \<longrightarrow>
         (\<exists>pre'. dirPatterns_match patterns rt' p' wantFile = Inr (m, pre', Some pat)))"
proof -
  let ?a = "Join [rt, Trim p ''/'']"
  let ?t = "Trim (drop (length rt) ?a) ''/''"
  from assms have len: "length rt \<le> length ?a"
    by (auto simp: dirPatterns_match_find Let_def split: if_splits)
  from assms have pre: "pre = (if ?t = [] then [] else ?t @ ''/'')"
    by (auto simp: dirPatterns_match_find Let_def prefix_of_def split: if_splits option.splits)
  have shape: "pre = [] \<or> (\<exists>t. pre = t @ ''/'' \<and> t \<noteq> [] \<and> hd t \<noteq> CHR ''/'' \<and> last t \<noteq> CHR ''/'')"
  proof (cases "?t = []")
    case True
    with pre show ?thesis by simp
  next
    case False
    with Trim_ends [of "drop (length rt) ?a" "''/''"]
    have "hd ?t \<noteq> CHR ''/''" "last ?t \<noteq> CHR ''/''" by auto
    with False pre show ?thesis by auto
  qed
  have same: "\<exists>pre'. dirPatterns_match patterns rt' p' wantFile = Inr (m, pre', Some pat)"
    if "Join [rt', Trim p' ''/''] = ?a" "length rt' \<le> length ?a" for rt' p'
    using match_depends_on_absPath [OF assms that] by blast
  from len pre shape same show ?thesis by (simp add: Let_def)
qed

text \<open>
  C3. The prefix that \<open>match\<close> returns is meant to be the part of the joined absolute path
  after the root, trimmed, with one slash appended when it is not empty. The code takes
  the bytes after the first \<open>length root\<close> ones (\<open>match_prefix_by_length\<close>), which is that
  part only when the joined path begins with the root. A path that climbs out of the root
  breaks this: with the root \<^verbatim>\<open>album\<close> and the path \<^verbatim>\<open>../playlist\<close> the joined path is
  \<^verbatim>\<open>playlist\<close>, which does not begin with the root; the rule \<^verbatim>\<open>^playlist$\<close> is returned and
  the prefix is \<^verbatim>\<open>ist/\<close>. With the root \<^verbatim>\<open>album/a\<close> and the path \<^verbatim>\<open>../b\<close> the joined path is
  \<^verbatim>\<open>album/b\<close>, the album collection rule is returned and the prefix is empty. The captures
  and the rule do depend on the joined path only (\<open>match_depends_on_absPath\<close>).
\<close>

theorem match_prefix_not_after_root:
  "Join [''album'', Trim ''../playlist'' ''/''] = ''playlist'' \<and>
   take (length ''album'') ''playlist'' \<noteq> ''album'' \<and>
   dirPatterns_match patterns ''album'' ''../playlist'' False =
     Inr ([''playlist''], ''ist/'', Some (patterns ! 4)) \<and>
   re (patterns ! 4) = ''^playlist$'' \<and>
   Join [''album/a'', Trim ''../b'' ''/''] = ''album/b'' \<and>
   take (length ''album/a'') ''album/b'' \<noteq> ''album/a'' \<and>
   dirPatterns_match patterns ''album/a'' ''../b'' False =
     Inr ([''album/b'', ''b''], '''', Some (patterns ! 2)) \<and>
   re (patterns ! 2) = ''^album/(.+)$''"
proof -
  have a: "Join [''album'', Trim ''../playlist'' ''/''] = ''playlist''"
    by code_simp
  have m: "\<not> matches (patterns ! 0) ''playlist''" "\<not> matches (patterns ! Suc 0) ''playlist''"
    "\<not> matches (patterns ! 2) ''playlist''" "matches (patterns ! 4) ''playlist''"
    by code_simp+
  have c: "the (FindStringSubmatch (the (match (patterns ! 4))) ''playlist'') = [''playlist'']"
    by code_simp
  have pre: "prefix_of ''album'' ''playlist'' = ''ist/''"
    by code_simp
  have 1: "dirPatterns_match patterns ''album'' ''../playlist'' False =
      Inr ([''playlist''], ''ist/'', Some (patterns ! 4))"
    by (simp add: dirPatterns_match_find a find_dir m c pre Let_def)
  have a': "Join [''album/a'', Trim ''../b'' ''/''] = ''album/b''"
    by code_simp
  have m': "\<not> matches (patterns ! 0) ''album/b''" "\<not> matches (patterns ! Suc 0) ''album/b''"
    "matches (patterns ! 2) ''album/b''"
    by code_simp+
  have c': "the (FindStringSubmatch (the (match (patterns ! 2))) ''album/b'') = [''album/b'', ''b'']"
    by code_simp
  have pre': "prefix_of ''album/a'' ''album/b'' = ''''"
    by code_simp
  have 2: "dirPatterns_match patterns ''album/a'' ''../b'' False =
      Inr ([''album/b'', ''b''], '''', Some (patterns ! 2))"
    by (simp add: dirPatterns_match_find a' find_dir m' c' pre' Let_def)
  have r: "re (patterns ! 4) = ''^playlist$''" "re (patterns ! 2) = ''^album/(.+)$''"
    by (simp_all add: patterns_eq)
  from a 1 a' 2 r show ?thesis by simp
qed

text \<open>
  C1. \<open>match\<close> trims the requested path, joins it with the root and returns the first rule
  of the requested style whose pattern matches the joined path. The code does so whenever
  it returns (\<open>dirPatterns_match_find\<close>), but it does not return for every input: with
  the root \<^verbatim>\<open>album/a\<close> and the path \<^verbatim>\<open>..\<close> the joined path is \<^verbatim>\<open>album\<close>, which the rule
  \<^verbatim>\<open>^album$\<close> (and no other directory rule) matches, and the slice
  \<^verbatim>\<open>absPath[len(root):]\<close> panics before the table is looked at.
\<close>

theorem match_panics_when_join_shortens_root:
  "Trim ''..'' ''/'' = ''..'' \<and>
   Join [''album/a'', ''..''] = ''album'' \<and>
   filter (\<lambda>q. \<not> isFile q \<and> matches q ''album'') patterns = [patterns ! 1] \<and>
   re (patterns ! 1) = ''^album$'' \<and>
   dirPatterns_match patterns ''album/a'' ''..'' False = Inl PanicSliceBounds"
proof -
  have t: "Trim ''..'' ''/'' = ''..''" by code_simp
  have a: "Join [''album/a'', ''..''] = ''album''" by code_simp
  have m: "\<not> matches (patterns ! 0) ''album''" "matches (patterns ! Suc 0) ''album''"
    "\<not> matches (patterns ! 2) ''album''" "\<not> matches (patterns ! 4) ''album''"
    "\<not> matches (patterns ! 5) ''album''"
    by code_simp+
  have f: "filter (\<lambda>q. \<not> isFile q \<and> matches q ''album'') patterns = [patterns ! 1]"
    by (simp add: filter_dir_matches m)
  have r: "re (patterns ! 1) = ''^album$''" by (simp add: patterns_eq)
  have p: "dirPatterns_match patterns ''album/a'' ''..'' False = Inl PanicSliceBounds"
    by (simp add: dirPatterns_match_find t a Let_def)
  from t a f r p show ?thesis by simp
qed

lemma example_unmatched_dir:
  "dirPatterns_match patterns '''' ''nosuch'' False = Inr ([], [], None)"
proof -
  have a: "Join ['''', Trim ''nosuch'' ''/''] = ''nosuch''"
    by code_simp
  have m: "\<not> matches (patterns ! 0) ''nosuch''" "\<not> matches (patterns ! Suc 0) ''nosuch''"
    "\<not> matches (patterns ! 2) ''nosuch''" "\<not> matches (patterns ! 4) ''nosuch''"
    "\<not> matches (patterns ! 5) ''nosuch''"
    by code_simp+
  show ?thesis
    by (simp add: dirPatterns_match_find a find_dir m Let_def)
qed

lemma example_album_file_style:
  "dirPatterns_match patterns '''' ''album'' True = Inr ([], [], None)"
proof -
  have a: "Join ['''', Trim ''album'' ''/''] = ''album''"
    by code_simp
  have m: "\<not> matches (patterns ! 3) ''album''" "\<not> matches (patterns ! 6) ''album''"
    by code_simp+
  show ?thesis
    by (simp add: dirPatterns_match_find a find_file m Let_def)
qed

lemma example_album_dir_style:
  "dirPatterns_match patterns '''' ''album'' False = Inr ([''album''], ''album/'', Some (patterns ! 1))"
proof -
  have a: "Join ['''', Trim ''album'' ''/''] = ''album''"
    by code_simp
  have m: "\<not> matches (patterns ! 0) ''album''" "matches (patterns ! Suc 0) ''album''"
    by code_simp+
  have c: "the (FindStringSubmatch (the (match (patterns ! Suc 0))) ''album'') = [''album'']"
    by code_simp
  have pre: "prefix_of '''' ''album'' = ''album/''"
    by code_simp
  show ?thesis
    by (simp add: dirPatterns_match_find a find_dir m c pre Let_def)
qed

text \<open>
  C2, as the claim states it, fails for \<open>Put\<close>: on a path that no file rule matches
  (\<^verbatim>\<open>album\<close> under the root \<^verbatim>\<open>""\<close>) \<open>Put\<close> returns \<open>errCantUpload\<close>, not the object-not-found
  condition.
\<close>

theorem put_unmatched_path_counterexample:
  "dirPatterns_match patterns (root (offline_Fs '''')) ''album'' True = Inr ([], [], None) \<and>
   Put (\<lambda>pattern. AlbumContainerType) (offline_Fs '''') ''bytes''
     \<lparr>src_Remote = ''album'', src_Size = 5, src_MimeType = None\<rparr> = Inl errCantUpload \<and>
   errCantUpload \<noteq> ErrorObjectNotFound"
  by (simp add: Put_def offline_Fs_def example_album_file_style)

text \<open>
  C2, amended. When \<open>match\<close> returns no rule, \<open>List\<close>, \<open>Mkdir\<close> and \<open>Rmdir\<close> return
  \<open>ErrorDirNotFound\<close> and \<open>NewObject\<close> returns \<open>ErrorObjectNotFound\<close>, while \<open>Put\<close> returns
  \<open>errCantUpload\<close>. When \<open>match\<close> returns a directory rule whose \<open>canMkdir\<close> is false,
  \<open>Mkdir\<close> returns \<open>errCantMkdir\<close> and \<open>Rmdir\<close> returns \<open>errCantRmdir\<close>. Every rule that
  \<open>match\<close> returns in file style has \<open>isFile\<close> and \<open>canUpload\<close> true, and on a matched
  path \<open>Put\<close> is never refused: its result is not \<open>errCantUpload\<close>.
\<close>

theorem operations_not_found_or_not_permitted:
  "(dirPatterns_match patterns (root f) dir False = Inr (m, pre, None) \<longrightarrow>
      List f dir = Inl ErrorDirNotFound \<and>
      Mkdir containerType f dir = Inl ErrorDirNotFound \<and>
      Rmdir containerType f dir = Inl ErrorDirNotFound) \<and>
   (dirPatterns_match patterns (root f) (src_Remote src) True = Inr (m, pre, None) \<longrightarrow>
      NewObject containerType f (src_Remote src) = Inl ErrorObjectNotFound \<and>
      Put containerType f inp src = Inl errCantUpload) \<and>
   (dirPatterns_match patterns (root f) dir False = Inr (m, pre, Some pat) \<and> \<not> canMkdir pat \<longrightarrow>
      Mkdir containerType f dir = Inl errCantMkdir \<and>
      Rmdir containerType f dir = Inl errCantRmdir) \<and>
   (dirPatterns_match patterns (root f) (src_Remote src) True = Inr (m, pre, Some pat) \<longrightarrow>
      isFile pat \<and> canUpload pat \<and> Put containerType f inp src \<noteq> Inl errCantUpload)"
proof -
  have flags: "isFile pat \<and> canUpload pat"
    if "dirPatterns_match patterns (root f) (src_Remote src) True = Inr (m, pre, Some pat)"
    using file_match_Some [OF that] by (auto simp: patterns_eq)
  have put: "Put containerType f inp src \<noteq> Inl errCantUpload"
    if h: "dirPatterns_match patterns (root f) (src_Remote src) True = Inr (m, pre, Some pat)"
  proof -
    from file_match_Some [OF h] have "index m 1 = Inr (m ! 1)" "index m 2 = Inr (m ! 2)"
      by (auto simp: index_def)
    with h flags [OF h] show ?thesis
      by (simp add: Put_def Let_def split: sum.splits option.splits)
  qed
  have rest: "(dirPatterns_match patterns (root f) dir False = Inr (m, pre, None) \<longrightarrow>
      List f dir = Inl ErrorDirNotFound \<and>
      Mkdir containerType f dir = Inl ErrorDirNotFound \<and>
      Rmdir containerType f dir = Inl ErrorDirNotFound) \<and>
   (dirPatterns_match patterns (root f) (src_Remote src) True = Inr (m, pre, None) \<longrightarrow>
      NewObject containerType f (src_Remote src) = Inl ErrorObjectNotFound \<and>
      Put containerType f inp src = Inl errCantUpload) \<and>
   (dirPatterns_match patterns (root f) dir False = Inr (m, pre, Some pat) \<and> \<not> canMkdir pat \<longrightarrow>
      Mkdir containerType f dir = Inl errCantMkdir \<and>
      Rmdir containerType f dir = Inl errCantRmdir)"
    by (auto simp: List_def Mkdir_def Rmdir_def NewObject_def Put_def)
  from rest flags put show ?thesis by blast
qed

theorem operations_not_found_or_not_permitted_witness:
  "dirPatterns_match patterns (root (offline_Fs '''')) ''nosuch'' False = Inr ([], [], None) \<and>
   List (offline_Fs '''') ''nosuch'' = Inl ErrorDirNotFound \<and>
   Mkdir (\<lambda>pattern. AlbumContainerType) (offline_Fs '''') ''nosuch'' = Inl ErrorDirNotFound \<and>
   Rmdir (\<lambda>pattern. AlbumContainerType) (offline_Fs '''') ''nosuch'' = Inl ErrorDirNotFound \<and>
   dirPatterns_match patterns (root (offline_Fs '''')) ''album'' True = Inr ([], [], None) \<and>
   NewObject (\<lambda>pattern. AlbumContainerType) (offline_Fs '''') ''album'' = Inl ErrorObjectNotFound \<and>
   Put (\<lambda>pattern. AlbumContainerType) (offline_Fs '''') ''bytes''
     \<lparr>src_Remote = ''album'', src_Size = 5, src_MimeType = None\<rparr> = Inl errCantUpload \<and>
   dirPatterns_match patterns (root (offline_Fs '''')) ''album'' False =
     Inr ([''album''], ''album/'', Some (patterns ! 1)) \<and>
   \<not> canMkdir (patterns ! 1) \<and>
   Mkdir (\<lambda>pattern. AlbumContainerType) (offline_Fs '''') ''album'' = Inl errCantMkdir \<and>
   Rmdir (\<lambda>pattern. AlbumContainerType) (offline_Fs '''') ''album'' = Inl errCantRmdir \<and>
   dirPatterns_match patterns (root (offline_Fs '''')) ''album/Vacation/img1.jpg'' True =
     Inr ([''album/Vacation/img1.jpg'', ''Vacation'', ''img1.jpg''],
          ''album/Vacation/img1.jpg/'', Some (patterns ! 3)) \<and>
   isFile (patterns ! 3) \<and> canUpload (patterns ! 3) \<and>
   Put (\<lambda>pattern. AlbumContainerType) (offline_Fs '''') ''bytes''
     \<lparr>src_Remote = ''album/Vacation/img1.jpg'', src_Size = 5, src_MimeType = None\<rparr> \<noteq>
     Inl errCantUpload \<and>
   Put (\<lambda>pattern. AlbumContainerType) (offline_Fs '''') ''bytes''
     \<lparr>src_Remote = ''album/Vacation/img1.jpg'', src_Size = 5, src_MimeType = None\<rparr> =
     Inl (Errorf ''failed to get container to upload photo into: %w'' []
            (Some (ClientError ''offline'')))"
proof -
  have r: "root (offline_Fs '''') = ''''" by (simp add: offline_Fs_def)
  have k: "\<not> canMkdir (patterns ! 1)" by (simp add: patterns_eq)
  note ops = operations_not_found_or_not_permitted
    [where f = "offline_Fs ''''" and containerType = "\<lambda>pattern. AlbumContainerType"
       and inp = "''bytes''"]
  from ops [where dir = "''nosuch''" and m = "[]" and pre = "[]"
      and src = "\<lparr>src_Remote = ''album'', src_Size = 5, src_MimeType = None\<rparr>"]
  have 1: "List (offline_Fs '''') ''nosuch'' = Inl ErrorDirNotFound"
    "Mkdir (\<lambda>pattern. AlbumContainerType) (offline_Fs '''') ''nosuch'' = Inl ErrorDirNotFound"
    "Rmdir (\<lambda>pattern. AlbumContainerType) (offline_Fs '''') ''nosuch'' = Inl ErrorDirNotFound"
    "NewObject (\<lambda>pattern. AlbumContainerType) (offline_Fs '''') ''album'' =
       Inl ErrorObjectNotFound"
    "Put (\<lambda>pattern. AlbumContainerType) (offline_Fs '''') ''bytes''
       \<lparr>src_Remote = ''album'', src_Size = 5, src_MimeType = None\<rparr> = Inl errCantUpload"
    using example_unmatched_dir example_album_file_style by (simp_all add: r)
  from ops [where dir = "''album''" and m = "[''album'']" and pre = "''album/''"
      and pat = "patterns ! 1"
      and src = "\<lparr>src_Remote = ''album'', src_Size = 5, src_MimeType = None\<rparr>"]
  have 2: "Mkdir (\<lambda>pattern. AlbumContainerType) (offline_Fs '''') ''album'' = Inl errCantMkdir"
    "Rmdir (\<lambda>pattern. AlbumContainerType) (offline_Fs '''') ''album'' = Inl errCantRmdir"
    using example_album_dir_style k by (simp_all add: r)
  from ops [where m = "[''album/Vacation/img1.jpg'', ''Vacation'', ''img1.jpg'']"
      and pre = "''album/Vacation/img1.jpg/''" and pat = "patterns ! 3"
      and src = "\<lparr>src_Remote = ''album/Vacation/img1.jpg'', src_Size = 5, src_MimeType = None\<rparr>"]
  have 3: "isFile (patterns ! 3)" "canUpload (patterns ! 3)"
    "Put (\<lambda>pattern. AlbumContainerType) (offline_Fs '''') ''bytes''
       \<lparr>src_Remote = ''album/Vacation/img1.jpg'', src_Size = 5, src_MimeType = None\<rparr> \<noteq>
       Inl errCantUpload"
    using example_album_item by (simp_all add: r)
  have 4: "Put (\<lambda>pattern. AlbumContainerType) (offline_Fs '''') ''bytes''
       \<lparr>src_Remote = ''album/Vacation/img1.jpg'', src_Size = 5, src_MimeType = None\<rparr> =
     Inl (Errorf ''failed to get container to upload photo into: %w'' []
            (Some (ClientError ''offline'')))"
    using example_album_item 3(1,2)
    by (simp add: Put_def r index_def offline_Fs_def offline_def)
  from 1 2 3 4 k example_unmatched_dir example_album_file_style example_album_dir_style
    example_album_item
  show ?thesis by (simp add: r)
qed

lemma clean_loop_element:
  assumes "seg \<noteq> []" "CHR ''/'' \<notin> set seg" "seg \<noteq> ''.''" "seg \<noteq> ''..''"
    and "rest = [] \<or> hd rest = CHR ''/''"
  shows "clean_loop False (seg @ rest) out dotdot =
           clean_loop False rest ((if out \<noteq> [] then out @ ''/'' else out) @ seg) dotdot"
proof -
  from assms(1) obtain c cs where seg: "seg = c # cs" by (cases seg) auto
  from assms(2) seg have c: "c \<noteq> CHR ''/''" and cs: "CHR ''/'' \<notin> set cs" by auto
  have dot: "\<not> (c = CHR ''.'' \<and> (cs @ rest = [] \<or> hd (cs @ rest) = CHR ''/''))"
  proof
    assume h: "c = CHR ''.'' \<and> (cs @ rest = [] \<or> hd (cs @ rest) = CHR ''/'')"
    with assms(3) seg have "cs \<noteq> []" by auto
    then have "hd (cs @ rest) = hd cs" "hd cs \<in> set cs" by auto
    with cs h \<open>cs \<noteq> []\<close> show False by auto
  qed
  have dotdot: "\<not> (c = CHR ''.'' \<and> hd (cs @ rest) = CHR ''.'' \<and>
      (tl (cs @ rest) = [] \<or> hd (tl (cs @ rest)) = CHR ''/''))"
  proof
    assume h: "c = CHR ''.'' \<and> hd (cs @ rest) = CHR ''.'' \<and>
      (tl (cs @ rest) = [] \<or> hd (tl (cs @ rest)) = CHR ''/'')"
    with assms(3) seg have ne: "cs \<noteq> []" by auto
    then obtain d ds where ds: "cs = d # ds" by (cases cs) auto
    with h have "d = CHR ''.''" by simp
    with assms(4) seg ds h have "ds \<noteq> []" by auto
    then have "tl (cs @ rest) = ds @ rest" "hd (ds @ rest) = hd ds" "hd ds \<in> set ds" "ds @ rest \<noteq> []"
      using ds by auto
    with cs ds h show False by auto
  qed
  have tw: "takeWhile (\<lambda>x. x \<noteq> CHR ''/'') (c # cs @ rest) = c # cs"
    using c cs assms(5) by (cases rest) (auto simp: takeWhile_append2 takeWhile_tail)
  have "dropWhile (\<lambda>x. x \<noteq> CHR ''/'') (cs @ rest) = dropWhile (\<lambda>x. x \<noteq> CHR ''/'') rest"
    by (rule dropWhile_append2) (use cs in auto)
  then have dw: "dropWhile (\<lambda>x. x \<noteq> CHR ''/'') (c # cs @ rest) = rest"
    using c assms(5) by (cases rest) auto
  have "clean_loop False (c # cs @ rest) out dotdot =
          clean_loop False (dropWhile (\<lambda>x. x \<noteq> CHR ''/'') (c # cs @ rest))
            ((if out \<noteq> [] then out @ ''/'' else out) @
              takeWhile (\<lambda>x. x \<noteq> CHR ''/'') (c # cs @ rest)) dotdot"
  proof -
    have e1: "(c = CHR ''/'') = False" using c by simp
    have e2: "(c = CHR ''.'' \<and> (cs @ rest = [] \<or> hd (cs @ rest) = CHR ''/'')) = False"
      using dot by simp
    have e3: "(c = CHR ''.'' \<and> hd (cs @ rest) = CHR ''.'' \<and>
        (tl (cs @ rest) = [] \<or> hd (tl (cs @ rest)) = CHR ''/'')) = False"
      using dotdot by simp
    show ?thesis
      by (subst clean_loop.simps(2), simp only: e1 e2 e3 if_False, simp add: Let_def)
  qed
  then show ?thesis unfolding tw dw by (simp add: seg)
qed

lemma clean_loop_segments:
  assumes "\<forall>s\<in>set segs. s \<noteq> [] \<and> CHR ''/'' \<notin> set s \<and> s \<noteq> ''.'' \<and> s \<noteq> ''..''"
    and "out \<noteq> []"
  shows "clean_loop False (concat (map ((#) CHR ''/'') segs)) out dotdot =
           out @ concat (map ((#) CHR ''/'') segs)"
  using assms
proof (induction segs arbitrary: out)
  case Nil
  then show ?case by simp
next
  case (Cons s segs)
  let ?rest = "concat (map ((#) CHR ''/'') segs)"
  have rest: "?rest = [] \<or> hd ?rest = CHR ''/''" by (cases segs) auto
  from Cons.prems have s: "s \<noteq> []" "CHR ''/'' \<notin> set s" "s \<noteq> ''.''" "s \<noteq> ''..''" by auto
  have "clean_loop False (concat (map ((#) CHR ''/'') (s # segs))) out dotdot =
          clean_loop False (s @ ?rest) out dotdot"
    by simp
  also have "\<dots> = clean_loop False ?rest ((if out \<noteq> [] then out @ ''/'' else out) @ s) dotdot"
    using s rest by (rule clean_loop_element)
  also have "\<dots> = clean_loop False ?rest (out @ ''/'' @ s) dotdot"
    using Cons.prems(2) by simp
  also have "\<dots> = (out @ ''/'' @ s) @ ?rest"
    using Cons.prems(1) by (intro Cons.IH) auto
  finally show ?case by simp
qed

lemma slash_join_Cons: "slash_join (x # xs) = x @ concat (map ((#) CHR ''/'') xs)"
  by (induction xs arbitrary: x) auto

lemma Clean_segments:
  assumes "segs \<noteq> []"
    and "\<forall>s\<in>set segs. s \<noteq> [] \<and> CHR ''/'' \<notin> set s \<and> s \<noteq> ''.'' \<and> s \<noteq> ''..''"
  shows "Clean (slash_join segs) = slash_join segs"
proof -
  from assms(1) obtain x xs where segs: "segs = x # xs" by (cases segs) auto
  let ?rest = "concat (map ((#) CHR ''/'') xs)"
  from assms(2) segs have x: "x \<noteq> []" "CHR ''/'' \<notin> set x" "x \<noteq> ''.''" "x \<noteq> ''..''"
    and xs: "\<forall>s\<in>set xs. s \<noteq> [] \<and> CHR ''/'' \<notin> set s \<and> s \<noteq> ''.'' \<and> s \<noteq> ''..''"
    by auto
  have rest: "?rest = [] \<or> hd ?rest = CHR ''/''" by (cases xs) auto
  have p: "slash_join segs = x @ ?rest" by (simp add: segs slash_join_Cons)
  have ne: "x @ ?rest \<noteq> []" using x by simp
  have hd: "hd (x @ ?rest) \<noteq> CHR ''/''" using x by (cases x) auto
  have "clean_loop False (x @ ?rest) [] 0 = clean_loop False ?rest x 0"
    using clean_loop_element [OF x rest, of "[]" 0] by simp
  also have "\<dots> = x @ ?rest" using xs x(1) by (rule clean_loop_segments)
  finally have "clean_loop False (x @ ?rest) [] 0 = x @ ?rest" .
  with ne hd show ?thesis unfolding p by (simp add: Clean_def)
qed

lemma Join_unrooted: "p \<noteq> [] \<Longrightarrow> Join ['''', p] = Clean p"
  by (simp add: Join_def)

lemma Trim_id:
  assumes "p \<noteq> []" "hd p \<notin> set cutset" "last p \<notin> set cutset"
  shows "Trim p cutset = p"
proof -
  have 1: "dropWhile (\<lambda>c. c \<in> set cutset) p = p"
    using assms(1,2) by (cases p) auto
  from assms(1) obtain ys y where p: "p = ys @ [y]" by (cases p rule: rev_cases) auto
  then have 2: "dropWhile (\<lambda>c. c \<in> set cutset) (rev p) = rev p"
    using assms(3) by simp
  show ?thesis unfolding Trim_def 1 2 by simp
qed

lemma slash_join_snoc: "xs \<noteq> [] \<Longrightarrow> slash_join (xs @ [y]) = slash_join xs @ CHR ''/'' # y"
  by (induction xs rule: slash_join.induct) auto

lemma slash_join_set: "set (slash_join xs) \<subseteq> \<Union> (set ` set xs) \<union> {CHR ''/''}"
  by (induction xs rule: slash_join.induct) auto

lemma slash_join_nonempty: "xs \<noteq> [] \<Longrightarrow> \<forall>s\<in>set xs. s \<noteq> [] \<Longrightarrow> slash_join xs \<noteq> []"
  by (induction xs rule: slash_join.induct) auto

lemma slash_join_last_nonempty: "xs \<noteq> [] \<Longrightarrow> last xs \<noteq> [] \<Longrightarrow> slash_join xs \<noteq> []"
  by (induction xs rule: slash_join.induct) auto

lemma last_slash_join: "xs \<noteq> [] \<Longrightarrow> last xs \<noteq> [] \<Longrightarrow> last (slash_join xs) = last (last xs)"
  by (induction xs rule: slash_join.induct) (auto simp: slash_join_last_nonempty)

lemma hd_slash_join: "x \<noteq> [] \<Longrightarrow> hd (slash_join (x # xs)) = hd x"
  by (simp add: slash_join_Cons)

lemma nested_item_path:
  assumes kind: "kind = ''album'' \<or> kind = ''playlist''"
    and coll: "coll \<noteq> []"
    and segs: "\<forall>s\<in>set (coll @ [item]). s \<noteq> [] \<and> CHR ''/'' \<notin> set s \<and> s \<noteq> ''.'' \<and> s \<noteq> ''..''"
    and nl: "\<forall>s\<in>set coll. CHR 0x0A \<notin> set s"
  shows "Join ['''', Trim (slash_join (kind # coll @ [item])) ''/''] =
           kind @ ''/'' @ slash_join coll @ CHR ''/'' # item"
    and "slash_join (kind # coll @ [item]) = kind @ ''/'' @ slash_join coll @ CHR ''/'' # item"
    and "slash_join coll \<noteq> []" and "CHR 0x0A \<notin> set (slash_join coll)"
    and "item \<noteq> []" and "CHR ''/'' \<notin> set item"
proof -
  let ?p = "slash_join (kind # coll @ [item])"
  from segs have item: "item \<noteq> []" "CHR ''/'' \<notin> set item" by auto
  from kind have k: "kind \<noteq> []" "CHR ''/'' \<notin> set kind" "kind \<noteq> ''.''" "kind \<noteq> ''..''"
    "hd kind \<noteq> CHR ''/''"
    by auto
  have all: "\<forall>s\<in>set (kind # coll @ [item]). s \<noteq> [] \<and> CHR ''/'' \<notin> set s \<and> s \<noteq> ''.'' \<and> s \<noteq> ''..''"
    using k segs by auto
  have clean: "Clean ?p = ?p" using all by (intro Clean_segments) auto
  have ne: "?p \<noteq> []" using k by (simp add: slash_join_Cons)
  have hd: "hd ?p \<noteq> CHR ''/''" using k by (simp add: hd_slash_join)
  have "last ?p = last (last (kind # coll @ [item]))"
    using item by (intro last_slash_join) auto
  moreover have "last item \<noteq> CHR ''/''" using item by (metis last_in_set)
  ultimately have last: "last ?p \<noteq> CHR ''/''" by simp
  have trim: "Trim ?p ''/'' = ?p" using ne hd last by (intro Trim_id) auto
  have "slash_join (kind # coll @ [item]) = kind @ CHR ''/'' # slash_join (coll @ [item])"
    using coll by (cases coll) auto
  then show p: "?p = kind @ ''/'' @ slash_join coll @ CHR ''/'' # item"
    using coll by (simp add: slash_join_snoc)
  have "Join ['''', Trim ?p ''/''] = Join ['''', ?p]" by (simp only: trim)
  also have "\<dots> = Clean ?p" using ne by (rule Join_unrooted)
  also have "\<dots> = ?p" by (rule clean)
  also have "\<dots> = kind @ ''/'' @ slash_join coll @ CHR ''/'' # item" by (rule p)
  finally show "Join ['''', Trim ?p ''/''] = kind @ ''/'' @ slash_join coll @ CHR ''/'' # item" .
  show "slash_join coll \<noteq> []" using coll segs by (intro slash_join_nonempty) auto
  show "CHR 0x0A \<notin> set (slash_join coll)" using slash_join_set [of coll] nl by auto
  show "item \<noteq> []" "CHR ''/'' \<notin> set item" using item by auto
qed

text \<open>
  C9, as the claim states it, fails: a segment \<^verbatim>\<open>.\<close> is removed by \<^verbatim>\<open>path.Join\<close>, so
  \<^verbatim>\<open>album/./x\<close> is looked up as \<^verbatim>\<open>album/x\<close> and no file rule matches it; and \<^verbatim>\<open>.\<close> in a
  pattern does not match a newline, so a collection segment holding a newline matches no
  file rule either.
\<close>

theorem nested_item_counterexample:
  "dirPatterns_match patterns '''' ''album/./x'' True = Inr ([], [], None) \<and>
   dirPatterns_match patterns '''' (''album/a'' @ [CHR 0x0A] @ ''b/x'') True = Inr ([], [], None)"
proof -
  have a: "Join ['''', Trim ''album/./x'' ''/''] = ''album/x''"
    by code_simp
  have m: "\<not> matches (patterns ! 3) ''album/x''" "\<not> matches (patterns ! 6) ''album/x''"
    by code_simp+
  have 1: "dirPatterns_match patterns '''' ''album/./x'' True = Inr ([], [], None)"
    by (simp add: dirPatterns_match_find a find_file m Let_def)
  have a': "Join ['''', Trim (''album/a'' @ [CHR 0x0A] @ ''b/x'') ''/''] =
      ''album/a'' @ [CHR 0x0A] @ ''b/x''"
    by code_simp
  have m': "\<not> matches (patterns ! 3) (''album/a'' @ [CHR 0x0A] @ ''b/x'')"
    "\<not> matches (patterns ! 6) (''album/a'' @ [CHR 0x0A] @ ''b/x'')"
    by code_simp+
  have 2: "dirPatterns_match patterns '''' (''album/a'' @ [CHR 0x0A] @ ''b/x'') True =
      Inr ([], [], None)"
    using a' m' by (simp add: dirPatterns_match_find find_file Let_def)
  from 1 2 show ?thesis by simp
qed

text \<open>
  C9, amended. Take a path \<^verbatim>\<open>kind/s1/.../sn\<close> under the root \<^verbatim>\<open>""\<close>, with kind \<^verbatim>\<open>album\<close> or
  \<^verbatim>\<open>playlist\<close> and \<open>n \<ge> 2\<close> segments, each of them non-empty, without a slash and neither
  \<^verbatim>\<open>.\<close> nor \<^verbatim>\<open>..\<close>, and no segment but the last holding a newline. Then \<open>match\<close> in file
  style returns the item rule of that kind, capture 2 is the last segment and capture 1
  is everything between the kind and the last slash: the collection name may hold
  slashes, and deeper paths still match as items.
\<close>

theorem nested_item_paths_match:
  assumes "kind = ''album'' \<or> kind = ''playlist''"
    and "coll \<noteq> []"
    and "\<forall>s\<in>set (coll @ [item]). s \<noteq> [] \<and> CHR ''/'' \<notin> set s \<and> s \<noteq> ''.'' \<and> s \<noteq> ''..''"
    and "\<forall>s\<in>set coll. CHR 0x0A \<notin> set s"
  shows "dirPatterns_match patterns '''' (slash_join (kind # coll @ [item])) True =
     Inr ([slash_join (kind # coll @ [item]), slash_join coll, item],
          slash_join (kind # coll @ [item]) @ ''/'',
          Some (if kind = ''album'' then patterns ! 3 else patterns ! 6))"
proof -
  let ?p = "slash_join (kind # coll @ [item])"
  let ?g = "slash_join coll"
  note f = nested_item_path [OF assms]
  have a: "Join ['''', Trim ?p ''/''] = ?p" using f(1,2) by simp
  have p: "?p = kind @ ''/'' @ ?g @ CHR ''/'' # item" by (rule f(2))
  have ne: "?p \<noteq> []" using p assms(1) by auto
  have hd: "hd ?p \<noteq> CHR ''/''" using p assms(1) by auto
  have "last ?p = last item" using p f(5) by simp
  moreover have "last item \<noteq> CHR ''/''" using f(5,6) by (metis last_in_set)
  ultimately have last: "last ?p \<noteq> CHR ''/''" by simp
  have "Trim ?p ''/'' = ?p" using ne hd last by (intro Trim_id) auto
  then have pre: "prefix_of '''' ?p = ?p @ ''/''" using ne by (simp add: prefix_of_def)
  from assms(1) show ?thesis
  proof
    assume k: "kind = ''album''"
    then have pa: "?p = ''album/'' @ ?g @ CHR ''/'' # item" using p by simp
    have c: "FindStringSubmatch (literals ''album/'' @ item_tail) ?p = Some [?p, ?g, item]"
      unfolding FSS_item_Some using pa f(3-6) by blast
    then have m3: "matches (patterns ! 3) ?p" by (simp add: matches_def match_nths)
    have "dirPatterns_match patterns '''' ?p True =
        Inr ([?p, ?g, item], ?p @ ''/'', Some (patterns ! 3))"
      by (simp add: dirPatterns_match_find a find_file m3 match_nths c pre Let_def)
    then show ?thesis using k by simp
  next
    assume k: "kind = ''playlist''"
    then have pa: "?p = ''playlist/'' @ ?g @ CHR ''/'' # item" using p by simp
    have c: "FindStringSubmatch (literals ''playlist/'' @ item_tail) ?p = Some [?p, ?g, item]"
      unfolding FSS_item_Some using pa f(3-6) by blast
    then have m6: "matches (patterns ! 6) ?p" by (simp add: matches_def match_nths)
    have m3: "\<not> matches (patterns ! 3) ?p"
      unfolding matches_item_shape by (subst pa) auto
    have "dirPatterns_match patterns '''' ?p True =
        Inr ([?p, ?g, item], ?p @ ''/'', Some (patterns ! 6))"
      by (simp add: dirPatterns_match_find a find_file m3 m6 match_nths c pre Let_def)
    then show ?thesis using k by simp
  qed
qed

theorem nested_item_paths_match_witness:
  "slash_join (''album'' # [''a'', ''b''] @ [''c.jpg'']) = ''album/a/b/c.jpg'' \<and>
   slash_join [''a'', ''b''] = ''a/b'' \<and>
   dirPatterns_match patterns '''' ''album/a/b/c.jpg'' True =
     Inr ([''album/a/b/c.jpg'', ''a/b'', ''c.jpg''], ''album/a/b/c.jpg/'', Some (patterns ! 3))"
  using nested_item_paths_match [of "''album''" "[''a'', ''b'']" "''c.jpg''"]
  by simp

end
